theory Spec2Isabelle
  imports Main
begin

section \<open>The QMP client of corten\_scripts/qmp.py\<close>

text \<open>
  The theory embeds the classes \<^verbatim>\<open>QEMUMonitorProtocol\<close> and \<^verbatim>\<open>QMPQuery\<close> of
  \<^verbatim>\<open>src/corten_scripts/qmp.py\<close>. The Python objects become HOL values, the private
  attributes of the protocol object become the fields of a record that every method
  takes and returns, and every way a method can end (a value, an exception, or never
  coming back from a blocking read) is a value of the type \<open>outcome\<close>.
\<close>

subsection \<open>JSON values and dictionaries\<close>

text \<open>
  What \<^verbatim>\<open>json.loads\<close> produces and \<^verbatim>\<open>json.dumps\<close> accepts. A Python dictionary with
  string keys is an association list in insertion order; \<^verbatim>\<open>None\<close> is \<open>JNull\<close>.
  Numbers are integers (floating point numbers are not modelled), and the characters
  of a string are code points below 256.
\<close>

datatype json =
    JNull
  | JBool bool
  | JInt int
  | JStr string
  | JList "json list"
  | JObj "(string \<times> json) list"

type_synonym msg = "(string \<times> json) list"

datatype socket_error =
    Errno nat                 \<comment> \<open>an error raised by the socket layer, with its \<^verbatim>\<open>errno\<close>\<close>
  | Wrapped socket_error      \<comment> \<open>\<^verbatim>\<open>socket.error(err)\<close>: a new error whose only argument is \<open>err\<close>\<close>

datatype exn =
    QMPConnectError "string option"
  | QMPCapabilitiesError
  | SocketError socket_error
  | ValueError
  | TypeError
  | KeyError string
  | IndexError
  | AttributeError
  | PyException json          \<comment> \<open>\<^verbatim>\<open>Exception(x)\<close>, the base class, carrying \<open>x\<close>\<close>

datatype 'a outcome =
    Returns 'a
  | Raises exn
  | Blocks                    \<comment> \<open>the call waits on the socket for ever\<close>

text \<open>The values of \<^verbatim>\<open>errno.EAGAIN\<close> and \<^verbatim>\<open>errno.EPIPE\<close> (Linux).\<close>

definition EAGAIN :: nat where
  "EAGAIN = 11"

definition EPIPE :: nat where
  "EPIPE = 32"

text \<open>\<^verbatim>\<open>k in d\<close> and \<^verbatim>\<open>d[k]\<close> for a dictionary \<open>d\<close>.\<close>

definition has_key :: "string \<Rightarrow> msg \<Rightarrow> bool" where
  "has_key k d = (map_of d k \<noteq> None)"

definition getitem :: "msg \<Rightarrow> string \<Rightarrow> json outcome" where
  "getitem d k = (case map_of d k of None \<Rightarrow> Raises (KeyError k) | Some v \<Rightarrow> Returns v)"

text \<open>
  \<^verbatim>\<open>v[k]\<close> for a JSON value \<open>v\<close> and a string key: only a dictionary can be indexed
  by a string, every other value raises \<^verbatim>\<open>TypeError\<close>.
\<close>

fun subscript :: "json \<Rightarrow> string \<Rightarrow> json outcome" where
  "subscript (JObj d) k = getitem d k"
| "subscript _ k = Raises TypeError"

text \<open>Python's truth value of a JSON value, as tested by \<^verbatim>\<open>if args:\<close> and \<^verbatim>\<open>if id:\<close>.\<close>

fun truthy :: "json \<Rightarrow> bool" where
  "truthy JNull = False"
| "truthy (JBool b) = b"
| "truthy (JInt n) = (n \<noteq> 0)"
| "truthy (JStr s) = (s \<noteq> [])"
| "truthy (JList xs) = (xs \<noteq> [])"
| "truthy (JObj d) = (d \<noteq> [])"

subsection \<open>The socket\<close>

text \<open>
  The socket and its file object belong to Python's library; the model fixes what the
  peer does as data. The field \<open>inbox\<close> lists, in order, what the read side of the
  stream holds:
  \<^item> \<open>Line (Json m)\<close>: a line whose text is the JSON document \<open>m\<close>;
  \<^item> \<open>Line Malformed\<close>: a non-empty line that is not JSON (\<^verbatim>\<open>json.loads\<close> raises
    \<^verbatim>\<open>ValueError\<close>);
  \<^item> \<open>Eof\<close>: the peer has shut the connection down: \<^verbatim>\<open>readline\<close> returns the empty
    string, now and at every later call;
  \<^item> \<open>Gap\<close>: a moment at which nothing has arrived yet: a non-blocking read returns the
    empty string, a blocking read waits for what comes next;
  \<^item> \<open>Fail e\<close>: the read raises \<^verbatim>\<open>socket.error\<close> with errno \<open>e\<close>.

  When the list is used up the peer sends nothing more and keeps the connection open:
  a non-blocking read returns the empty string, a blocking read never returns.

  The file runs under Python 3 (\<^verbatim>\<open>pin_cpu.py\<close>, which imports it, asks for
  \<^verbatim>\<open>python3\<close>). There \<^verbatim>\<open>sock.makefile()\<close> is a text file whose \<^verbatim>\<open>readline\<close> on a
  non-blocking socket returns the empty string when nothing is pending, as it does at
  the end of the stream, and hands back the part of a line that has arrived: in the
  model such a part is a line that is not JSON.

  The field \<open>sendrc\<close> lists the results of the successive \<^verbatim>\<open>sendall\<close> calls
  (\<open>None\<close>: written; \<open>Some e\<close>: \<^verbatim>\<open>socket.error\<close> with errno \<open>e\<close>); when it is used up
  every write succeeds. The field \<open>sent\<close> records the documents written, \<open>refused\<close>
  is the errno with which \<^verbatim>\<open>sock.connect\<close> fails, if it does, and \<open>sockfile\<close> tells
  whether the attribute \<^verbatim>\<open>__sockfile\<close> has been set.
\<close>

datatype line = Json msg | Malformed

datatype rd = Line line | Eof | Gap | Fail nat

record session =
  events :: "msg list"
  inbox :: "rd list"
  blocking :: bool
  sendrc :: "nat option list"
  sent :: "msg list"
  sockfile :: bool
  refused :: "nat option"

text \<open>\<^verbatim>\<open>self.__sockfile.readline()\<close>: the line read (\<open>None\<close> for the empty string).\<close>

fun readline :: "bool \<Rightarrow> rd list \<Rightarrow> line option outcome \<times> rd list" where
  "readline b [] = (if b then Blocks else Returns None, [])"
| "readline b (Gap # r) = (if b then readline b r else (Returns None, r))"
| "readline b (Line l # r) = (Returns (Some l), r)"
| "readline b (Eof # r) = (Returns None, Eof # r)"
| "readline b (Fail e # r) = (Raises (SocketError (Errno e)), r)"

text \<open>\<^verbatim>\<open>json.loads(data)\<close> on a non-empty line.\<close>

fun json_loads :: "line \<Rightarrow> msg outcome" where
  "json_loads (Json m) = Returns m"
| "json_loads Malformed = Raises ValueError"

text \<open>\<^verbatim>\<open>self.__sock.sendall(json.dumps(qmp_cmd).encode())\<close>.\<close>

definition sendall :: "msg \<Rightarrow> session \<Rightarrow> unit outcome \<times> session" where
  "sendall m st =
     (case sendrc st of
        [] \<Rightarrow> (Returns (), st\<lparr>sent := sent st @ [m]\<rparr>)
      | None # r \<Rightarrow> (Returns (), st\<lparr>sent := sent st @ [m], sendrc := r\<rparr>)
      | Some e # r \<Rightarrow> (Raises (SocketError (Errno e)), st\<lparr>sendrc := r\<rparr>))"

text \<open>
  \<^verbatim>\<open>err[0]\<close> for a socket error \<open>err\<close>. In Python 3 \<^verbatim>\<open>socket.error\<close> is \<^verbatim>\<open>OSError\<close>, which
  cannot be indexed: the expression raises \<^verbatim>\<open>TypeError\<close>, whatever the error is. (In
  Python 2 it was the errno, which the handlers of the source compare with
  \<^verbatim>\<open>errno.EPIPE\<close> and \<^verbatim>\<open>errno.EAGAIN\<close>.)
\<close>

definition arg0 :: "socket_error \<Rightarrow> nat outcome" where
  "arg0 err = Raises TypeError"

subsection \<open>QEMUMonitorProtocol\<close>

text \<open>
  \<^verbatim>\<open>__json_read(only_event)\<close>: read lines until one is not an event; every event read
  is appended to \<open>events\<close>. With \<open>only_event\<close> the first event read is returned too.
\<close>

function json_read :: "bool \<Rightarrow> session \<Rightarrow> msg option outcome \<times> session" where
  "json_read only_event st =
     (if \<not> sockfile st then (Raises AttributeError, st)
      else case readline (blocking st) (inbox st) of
        (Blocks, r) \<Rightarrow> (Blocks, st\<lparr>inbox := r\<rparr>)
      | (Raises e, r) \<Rightarrow> (Raises e, st\<lparr>inbox := r\<rparr>)
      | (Returns None, r) \<Rightarrow> (Returns None, st\<lparr>inbox := r\<rparr>)
      | (Returns (Some data), r) \<Rightarrow>
          (case json_loads data of
             Returns resp \<Rightarrow>
               if has_key ''event'' resp then
                 if \<not> only_event
                 then json_read only_event (st\<lparr>inbox := r, events := events st @ [resp]\<rparr>)
                 else (Returns (Some resp), st\<lparr>inbox := r, events := events st @ [resp]\<rparr>)
               else (Returns (Some resp), st\<lparr>inbox := r\<rparr>)
           | Raises e \<Rightarrow> (Raises e, st\<lparr>inbox := r\<rparr>)
           | Blocks \<Rightarrow> (Blocks, st\<lparr>inbox := r\<rparr>)))"
  by pat_completeness auto
termination
proof -
  have shorter: "length r < length xs"
    if "(Returns (Some l), r) = readline b xs" for b xs l r
    using that
  proof (induction xs)
    case Nil
    then show ?case by (simp split: if_splits)
  next
    case (Cons x xs)
    then show ?case by (cases x) (auto split: if_splits)
  qed
  show ?thesis
    by (relation "measure (\<lambda>(only_event, st). length (inbox st))")
       (auto dest: shorter)
qed

declare json_read.simps [simp del]

text \<open>
  \<^verbatim>\<open>cmd_obj(qmp_cmd)\<close>: write the command, then read the response. The handler of a
  failed write evaluates \<^verbatim>\<open>err[0] == errno.EPIPE\<close>, then returns \<^verbatim>\<open>None\<close> or raises
  \<^verbatim>\<open>socket.error(err)\<close>; an exception raised by \<^verbatim>\<open>err[0]\<close> leaves the method.
\<close>

definition cmd_obj :: "msg \<Rightarrow> session \<Rightarrow> msg option outcome \<times> session" where
  "cmd_obj qmp_cmd st =
     (case sendall qmp_cmd st of
        (Returns _, st1) \<Rightarrow> json_read False st1
      | (Raises (SocketError err), st1) \<Rightarrow>
          (case arg0 err of
             Returns e \<Rightarrow>
               if e = EPIPE then (Returns None, st1)
               else (Raises (SocketError (Wrapped err)), st1)
           | Raises x \<Rightarrow> (Raises x, st1)
           | Blocks \<Rightarrow> (Blocks, st1))
      | (Raises e, st1) \<Rightarrow> (Raises e, st1)
      | (Blocks, st1) \<Rightarrow> (Blocks, st1))"

text \<open>The dictionary \<^verbatim>\<open>qmp_cmd\<close> that \<^verbatim>\<open>cmd(name, args, id)\<close> builds.\<close>

definition qmp_cmd :: "string \<Rightarrow> json \<Rightarrow> json \<Rightarrow> msg" where
  "qmp_cmd name args ident =
     [(''execute'', JStr name)]
     @ (if truthy args then [(''arguments'', args)] else [])
     @ (if truthy ident then [(''id'', ident)] else [])"

definition cmd :: "string \<Rightarrow> json \<Rightarrow> json \<Rightarrow> session \<Rightarrow> msg option outcome \<times> session" where
  "cmd name args ident st = cmd_obj (qmp_cmd name args ident) st"

text \<open>
  \<^verbatim>\<open>command(cmd, **kwds)\<close>. The keyword arguments arrive as a dictionary, empty when
  there are none. \<^verbatim>\<open>'error' in ret\<close> raises \<^verbatim>\<open>TypeError\<close> when \<open>ret\<close> is \<^verbatim>\<open>None\<close>.
\<close>

definition command :: "string \<Rightarrow> msg \<Rightarrow> session \<Rightarrow> json outcome \<times> session" where
  "command c kwds st =
     (case cmd c (JObj kwds) JNull st of
        (Returns None, st1) \<Rightarrow> (Raises TypeError, st1)
      | (Returns (Some ret), st1) \<Rightarrow>
          if has_key ''error'' ret then
            (case getitem ret ''error'' of
               Returns err \<Rightarrow>
                 (case subscript err ''desc'' of
                    Returns desc \<Rightarrow> (Raises (PyException desc), st1)
                  | Raises e \<Rightarrow> (Raises e, st1)
                  | Blocks \<Rightarrow> (Blocks, st1))
             | Raises e \<Rightarrow> (Raises e, st1)
             | Blocks \<Rightarrow> (Blocks, st1))
          else (getitem ret ''return'', st1)
      | (Raises e, st1) \<Rightarrow> (Raises e, st1)
      | (Blocks, st1) \<Rightarrow> (Blocks, st1))"

text \<open>
  \<^verbatim>\<open>__negotiate_capabilities()\<close>. The greeting is printed, which the model leaves out.
  \<^verbatim>\<open>"return" in resp\<close> raises \<^verbatim>\<open>TypeError\<close> when \<open>resp\<close> is \<^verbatim>\<open>None\<close>.
\<close>

definition negotiate_capabilities :: "session \<Rightarrow> msg outcome \<times> session" where
  "negotiate_capabilities st =
     (case json_read False st of
        (Returns None, st1) \<Rightarrow> (Raises (QMPConnectError None), st1)
      | (Returns (Some greeting), st1) \<Rightarrow>
          if \<not> has_key ''QMP'' greeting then (Raises (QMPConnectError None), st1)
          else
            (case cmd ''qmp_capabilities'' JNull JNull st1 of
               (Returns None, st2) \<Rightarrow> (Raises TypeError, st2)
             | (Returns (Some resp), st2) \<Rightarrow>
                 if has_key ''return'' resp then (Returns greeting, st2)
                 else (Raises QMPCapabilitiesError, st2)
             | (Raises e, st2) \<Rightarrow> (Raises e, st2)
             | (Blocks, st2) \<Rightarrow> (Blocks, st2))
      | (Raises e, st1) \<Rightarrow> (Raises e, st1)
      | (Blocks, st1) \<Rightarrow> (Blocks, st1))"

text \<open>\<^verbatim>\<open>connect(negotiate)\<close>: the greeting, or \<^verbatim>\<open>None\<close> without negotiation.\<close>

definition connect :: "bool \<Rightarrow> session \<Rightarrow> msg option outcome \<times> session" where
  "connect negotiate st =
     (case refused st of
        Some e \<Rightarrow> (Raises (SocketError (Errno e)), st)
      | None \<Rightarrow>
          if negotiate then
            (case negotiate_capabilities (st\<lparr>sockfile := True\<rparr>) of
               (Returns greeting, st1) \<Rightarrow> (Returns (Some greeting), st1)
             | (Raises e, st1) \<Rightarrow> (Raises e, st1)
             | (Blocks, st1) \<Rightarrow> (Blocks, st1))
          else (Returns None, st\<lparr>sockfile := True\<rparr>))"

text \<open>
  The lines with which \<^verbatim>\<open>pull_event\<close> and \<^verbatim>\<open>get_events\<close> both begin: the socket is
  made non-blocking, what is pending is read, and the socket is made blocking again.
  The handler of a \<^verbatim>\<open>socket.error\<close> evaluates \<^verbatim>\<open>err[0] == errno.EAGAIN\<close> and raises
  nothing itself. An exception that is not caught, and one raised by \<^verbatim>\<open>err[0]\<close>,
  leaves the method before \<^verbatim>\<open>setblocking(1)\<close>.
\<close>

definition read_pending :: "session \<Rightarrow> unit outcome \<times> session" where
  "read_pending st =
     (case json_read False (st\<lparr>blocking := False\<rparr>) of
        (Returns _, st1) \<Rightarrow> (Returns (), st1\<lparr>blocking := True\<rparr>)
      | (Raises (SocketError err), st1) \<Rightarrow>
          (case arg0 err of
             Returns e \<Rightarrow> (Returns (), st1\<lparr>blocking := True\<rparr>)
           | Raises x \<Rightarrow> (Raises x, st1)
           | Blocks \<Rightarrow> (Blocks, st1))
      | (Raises e, st1) \<Rightarrow> (Raises e, st1)
      | (Blocks, st1) \<Rightarrow> (Blocks, st1))"

text \<open>\<^verbatim>\<open>event = self.__events[0]; del self.__events[0]; return event\<close>.\<close>

definition pop_first :: "session \<Rightarrow> msg outcome \<times> session" where
  "pop_first st =
     (case events st of
        [] \<Rightarrow> (Raises IndexError, st)
      | event # rest \<Rightarrow> (Returns event, st\<lparr>events := rest\<rparr>))"

definition pull_event :: "bool \<Rightarrow> session \<Rightarrow> msg outcome \<times> session" where
  "pull_event wait st =
     (case read_pending st of
        (Returns _, st1) \<Rightarrow>
          if events st1 = [] \<and> wait then
            (case json_read True st1 of
               (Returns _, st2) \<Rightarrow> pop_first st2
             | (Raises e, st2) \<Rightarrow> (Raises e, st2)
             | (Blocks, st2) \<Rightarrow> (Blocks, st2))
          else pop_first st1
      | (Raises e, st1) \<Rightarrow> (Raises e, st1)
      | (Blocks, st1) \<Rightarrow> (Blocks, st1))"

definition get_events :: "bool \<Rightarrow> session \<Rightarrow> msg list outcome \<times> session" where
  "get_events wait st =
     (case read_pending st of
        (Returns _, st1) \<Rightarrow>
          if events st1 = [] \<and> wait then
            (case json_read True st1 of
               (Returns None, st2) \<Rightarrow>
                 (Raises (QMPConnectError (Some ''Error while reading from socket'')), st2)
             | (Returns (Some _), st2) \<Rightarrow> (Returns (events st2), st2)
             | (Raises e, st2) \<Rightarrow> (Raises e, st2)
             | (Blocks, st2) \<Rightarrow> (Blocks, st2))
          else (Returns (events st1), st1)
      | (Raises e, st1) \<Rightarrow> (Raises e, st1)
      | (Blocks, st1) \<Rightarrow> (Blocks, st1))"

definition clear_events :: "session \<Rightarrow> session" where
  "clear_events st = st\<lparr>events := []\<rparr>"

text \<open>
  \<open>n\<close> successive calls \<^verbatim>\<open>pull_event()\<close>, as a caller emptying the queue makes them,
  with the outcome of each.
\<close>

fun pull_event_repeat :: "nat \<Rightarrow> session \<Rightarrow> msg outcome list \<times> session" where
  "pull_event_repeat 0 st = ([], st)"
| "pull_event_repeat (Suc n) st =
     (case pull_event False st of
        (res, st1) \<Rightarrow> (case pull_event_repeat n st1 of (ress, st2) \<Rightarrow> (res # ress, st2)))"

text \<open>The next \<^verbatim>\<open>sendall\<close> succeeds.\<close>

definition writable :: "session \<Rightarrow> bool" where
  "writable st = (case sendrc st of Some e # r \<Rightarrow> False | _ \<Rightarrow> True)"

subsection \<open>QMPQuery\<close>

text \<open>\<^verbatim>\<open>s.split(c)\<close> for a one-character separator: the pieces between the separators.\<close>

fun py_split :: "char \<Rightarrow> string \<Rightarrow> string list" where
  "py_split c [] = [[]]"
| "py_split c (x # xs) =
     (if x = c then [] # py_split c xs
      else (case py_split c xs of [] \<Rightarrow> [[x]] | p # ps \<Rightarrow> (x # p) # ps))"

text \<open>
  An address is a pair of a host and a port, or the path of a unix socket.
  \<^verbatim>\<open>__get_address(arg)\<close> takes Python's \<^verbatim>\<open>int\<close> on strings as the parameter \<open>int_of\<close>,
  \<open>None\<close> where \<^verbatim>\<open>int\<close> raises \<^verbatim>\<open>ValueError\<close>; the handler raises the error again.
\<close>

datatype address = HostPort string int | SocketPath string

definition get_address :: "(string \<Rightarrow> int option) \<Rightarrow> string \<Rightarrow> address outcome" where
  "get_address int_of arg =
     (case py_split CHR '':'' arg of
        [host, p] \<Rightarrow>
          (case int_of p of
             None \<Rightarrow> Raises ValueError
           | Some port \<Rightarrow> Returns (HostPort host port))
      | _ \<Rightarrow> Returns (SocketPath arg))"

text \<open>
  The decimal numerals among the strings \<^verbatim>\<open>int\<close> accepts: digits, with an optional
  sign in front. The examples below run on it.
\<close>

definition digit_val :: "char \<Rightarrow> nat" where
  "digit_val c = of_char c - of_char CHR ''0''"

definition is_digit :: "char \<Rightarrow> bool" where
  "is_digit c = (c \<in> set ''0123456789'')"

definition decimal :: "string \<Rightarrow> int option" where
  "decimal s =
     (let (neg, ds) = (case s of
                         c # r \<Rightarrow> if c = CHR ''-'' then (True, r)
                                  else if c = CHR ''+'' then (False, r) else (False, s)
                       | [] \<Rightarrow> (False, s));
          n = int (foldl (\<lambda>a c. 10 * a + digit_val c) 0 ds)
      in if ds \<noteq> [] \<and> list_all is_digit ds then Some (if neg then - n else n) else None)"

subsection \<open>The JSON text of a document\<close>

text \<open>
  The session above keeps documents, not characters: \<open>sent\<close> holds the document whose
  text \<^verbatim>\<open>sendall\<close> is given, and \<open>Line (Json m)\<close> is a line that \<^verbatim>\<open>json.loads\<close> turns
  into \<open>m\<close>. This subsection gives the text. \<open>dumps\<close> is \<^verbatim>\<open>json.dumps\<close> with its default
  arguments, as \<^verbatim>\<open>cmd_obj\<close> calls it, and \<open>loads\<close> is \<^verbatim>\<open>json.loads\<close>, as
  \<^verbatim>\<open>__json_read\<close> calls it; both belong to Python's library and are written here from
  its behaviour on the values of type \<open>json\<close>. A character is a code point below 256, so
  the characters outside ASCII are those from 128 to 255. The result \<open>None\<close> is
  \<^verbatim>\<open>ValueError\<close>; for \<open>loads\<close> it is also the answer on a text whose document is not a
  value of type \<open>json\<close> (a floating point number, a character above 255). The limits
  of the machine (memory, the depth of the interpreter's stack) are not modelled.

  The limit of CPython on the digits of an integer that is converted to or from a
  string (\<^verbatim>\<open>sys.int_info.default_max_str_digits\<close>); the sign does not count.
\<close>

definition max_str_digits :: nat where
  "max_str_digits = 4300"

text \<open>
  A string in a text written with \<^verbatim>\<open>ensure_ascii\<close>: the quote and the backslash take a
  backslash, the five control characters with a short escape take it, the printable
  ASCII characters (from the space to the tilde) stand for themselves, and every
  other character is written as a backslash, \<^verbatim>\<open>u00\<close> and the two digits of its code
  in lower-case hexadecimal.
\<close>

definition hex_char :: "nat \<Rightarrow> char" where
  "hex_char n = ''0123456789abcdef'' ! n"

definition escape :: "char \<Rightarrow> string" where
  "escape c =
     (if c = CHR 0x22 then [CHR 0x5C, CHR 0x22]
      else if c = CHR 0x5C then [CHR 0x5C, CHR 0x5C]
      else if c = CHR 0x0A then [CHR 0x5C, CHR ''n'']
      else if c = CHR 0x0D then [CHR 0x5C, CHR ''r'']
      else if c = CHR 0x09 then [CHR 0x5C, CHR ''t'']
      else if c = CHR 0x08 then [CHR 0x5C, CHR ''b'']
      else if c = CHR 0x0C then [CHR 0x5C, CHR ''f'']
      else if 0x20 \<le> (of_char c :: nat) \<and> (of_char c :: nat) \<le> 0x7E then [c]
      else [CHR 0x5C, CHR ''u'', CHR ''0'', CHR ''0'',
            hex_char (of_char c div 16), hex_char (of_char c mod 16)])"

definition encode_str :: "string \<Rightarrow> string" where
  "encode_str s = CHR 0x22 # concat (map escape s) @ [CHR 0x22]"

text \<open>\<^verbatim>\<open>str(n)\<close> for an integer: the decimal digits, after a minus sign if it is negative.\<close>

definition digit_char :: "nat \<Rightarrow> char" where
  "digit_char d = ''0123456789'' ! d"

function str_nat :: "nat \<Rightarrow> string" where
  "str_nat n =
     (if n < 10 then [digit_char n]
      else str_nat (n div 10) @ [digit_char (n mod 10)])"
  by pat_completeness auto
termination
  by (relation "measure id") auto

declare str_nat.simps [simp del]

definition str_int :: "int \<Rightarrow> string" where
  "str_int n = (if n < 0 then CHR ''-'' # str_nat (nat (- n)) else str_nat (nat n))"

text \<open>
  The text of a value, with the default separators \<^verbatim>\<open>", "\<close> between the items and
  \<^verbatim>\<open>": "\<close> after a key, and the keys in the order of the dictionary.
\<close>

fun encode :: "json \<Rightarrow> string"
  and encode_items :: "json list \<Rightarrow> string"
  and encode_pairs :: "(string \<times> json) list \<Rightarrow> string" where
  "encode JNull = ''null''"
| "encode (JBool b) = (if b then ''true'' else ''false'')"
| "encode (JInt n) = str_int n"
| "encode (JStr s) = encode_str s"
| "encode (JList xs) = CHR ''['' # encode_items xs @ '']''"
| "encode (JObj kvs) = CHR ''{'' # encode_pairs kvs @ ''}''"
| "encode_items [] = []"
| "encode_items [x] = encode x"
| "encode_items (x # y # ys) = encode x @ '', '' @ encode_items (y # ys)"
| "encode_pairs [] = []"
| "encode_pairs [(k, v)] = encode_str k @ '': '' @ encode v"
| "encode_pairs ((k, v) # p # ps) =
     encode_str k @ '': '' @ encode v @ '', '' @ encode_pairs (p # ps)"

text \<open>
  The integers of a value. \<^verbatim>\<open>json.dumps\<close> raises \<^verbatim>\<open>ValueError\<close> when one of them has
  more digits than the limit, since \<^verbatim>\<open>str\<close> does.
\<close>

fun ints_of :: "json \<Rightarrow> int list"
  and ints_of_items :: "json list \<Rightarrow> int list"
  and ints_of_pairs :: "(string \<times> json) list \<Rightarrow> int list" where
  "ints_of JNull = []"
| "ints_of (JBool b) = []"
| "ints_of (JInt n) = [n]"
| "ints_of (JStr s) = []"
| "ints_of (JList xs) = ints_of_items xs"
| "ints_of (JObj kvs) = ints_of_pairs kvs"
| "ints_of_items [] = []"
| "ints_of_items (x # xs) = ints_of x @ ints_of_items xs"
| "ints_of_pairs [] = []"
| "ints_of_pairs ((k, v) # ps) = ints_of v @ ints_of_pairs ps"

definition int_fits :: "int \<Rightarrow> bool" where
  "int_fits n = (length (str_nat (nat \<bar>n\<bar>)) \<le> max_str_digits)"

definition dumps :: "json \<Rightarrow> string option" where
  "dumps v = (if list_all int_fits (ints_of v) then Some (encode v) else None)"

text \<open>The white space that \<^verbatim>\<open>json.loads\<close> skips: space, tab, line feed, carriage return.\<close>

definition is_ws :: "char \<Rightarrow> bool" where
  "is_ws c = (c \<in> set [CHR '' '', CHR 0x09, CHR 0x0A, CHR 0x0D])"

definition skip_ws :: "string \<Rightarrow> string" where
  "skip_ws s = dropWhile is_ws s"

text \<open>
  A string, read from after its opening quote to its closing quote; the result is the
  string and the rest of the text. A control character (below the space) is refused, a
  backslash is followed by a quote, a backslash, a slash, one of \<^verbatim>\<open>b f n r t\<close>, or
  \<^verbatim>\<open>u\<close> and four hexadecimal digits in either case.
\<close>

definition hex_val :: "char \<Rightarrow> nat option" where
  "hex_val c =
     (if is_digit c then Some (digit_val c)
      else if c \<in> set ''abcdef'' then Some (of_char c - 87)
      else if c \<in> set ''ABCDEF'' then Some (of_char c - 55)
      else None)"

definition hex4 :: "string \<Rightarrow> nat option" where
  "hex4 s =
     (case map hex_val s of
        [Some a, Some b, Some c, Some d] \<Rightarrow> Some (((a * 16 + b) * 16 + c) * 16 + d)
      | _ \<Rightarrow> None)"

definition unescape :: "char \<Rightarrow> char option" where
  "unescape e =
     (if e = CHR 0x22 then Some (CHR 0x22)
      else if e = CHR 0x5C then Some (CHR 0x5C)
      else if e = CHR ''/'' then Some (CHR ''/'')
      else if e = CHR ''b'' then Some (CHR 0x08)
      else if e = CHR ''f'' then Some (CHR 0x0C)
      else if e = CHR ''n'' then Some (CHR 0x0A)
      else if e = CHR ''r'' then Some (CHR 0x0D)
      else if e = CHR ''t'' then Some (CHR 0x09)
      else None)"

fun scanstring :: "string \<Rightarrow> (string \<times> string) option" where
  "scanstring [] = None"
| "scanstring (c # cs) =
     (if c = CHR 0x22 then Some ([], cs)
      else if c = CHR 0x5C then
        (case cs of
           [] \<Rightarrow> None
         | e # r \<Rightarrow>
             if e = CHR ''u'' then
               (case hex4 (take 4 r) of
                  None \<Rightarrow> None
                | Some n \<Rightarrow>
                    if n < 256
                    then map_option (\<lambda>(s, t). (char_of n # s, t)) (scanstring (drop 4 r))
                    else None)
             else
               (case unescape e of
                  None \<Rightarrow> None
                | Some ch \<Rightarrow> map_option (\<lambda>(s, t). (ch # s, t)) (scanstring r)))
      else if (of_char c :: nat) < 0x20 then None
      else map_option (\<lambda>(s, t). (c # s, t)) (scanstring cs))"

text \<open>
  An integer: an optional minus sign, then a single \<^verbatim>\<open>0\<close> or a digit other than
  \<^verbatim>\<open>0\<close> followed by digits, as many as there are; \<^verbatim>\<open>int\<close> raises \<^verbatim>\<open>ValueError\<close> beyond
  the limit of digits. What follows the integer is left for the caller, which refuses
  a fraction or an exponent there.
\<close>

definition parse_nat :: "string \<Rightarrow> (nat \<times> string) option" where
  "parse_nat s =
     (case s of
        [] \<Rightarrow> None
      | c # r \<Rightarrow>
          if c = CHR ''0'' then Some (0, r)
          else if is_digit c then
            (let ds = takeWhile is_digit s in
             if length ds \<le> max_str_digits
             then Some (foldl (\<lambda>a d. 10 * a + digit_val d) 0 ds, dropWhile is_digit s)
             else None)
          else None)"

definition parse_int :: "string \<Rightarrow> (int \<times> string) option" where
  "parse_int s =
     (case s of
        [] \<Rightarrow> None
      | c # r \<Rightarrow>
          if c = CHR ''-'' then map_option (\<lambda>(n, t). (- int n, t)) (parse_nat r)
          else map_option (\<lambda>(n, t). (int n, t)) (parse_nat s))"

text \<open>
  The dictionary made from the pairs read: a key read again keeps its place and takes
  the new value.
\<close>

definition dict_set :: "msg \<Rightarrow> string \<times> json \<Rightarrow> msg" where
  "dict_set d kv =
     (if map_of d (fst kv) = None then d @ [kv]
      else map (\<lambda>(k, v). if k = fst kv then kv else (k, v)) d)"

definition dict_of :: "(string \<times> json) list \<Rightarrow> msg" where
  "dict_of pairs = foldl dict_set [] pairs"

text \<open>
  A value, the items of a list after its opening bracket, and the pairs of a dictionary
  after the opening quote of a key; each gives what it read and the rest of the text.
  The first argument bounds the depth of the calls; \<open>loads\<close> allows two for each
  character of the text and one more, and a text written by \<open>dumps\<close> needs no more
  than its length.
\<close>

fun parse_value :: "nat \<Rightarrow> string \<Rightarrow> (json \<times> string) option"
  and parse_items :: "nat \<Rightarrow> string \<Rightarrow> (json list \<times> string) option"
  and parse_pairs :: "nat \<Rightarrow> string \<Rightarrow> ((string \<times> json) list \<times> string) option" where
  "parse_value 0 s = None"
| "parse_value (Suc n) s =
     (case s of
        [] \<Rightarrow> None
      | c # r \<Rightarrow>
          if c = CHR 0x22 then map_option (\<lambda>(x, t). (JStr x, t)) (scanstring r)
          else if c = CHR ''{'' then
            (case skip_ws r of
               [] \<Rightarrow> None
             | d # t \<Rightarrow>
                 if d = CHR ''}'' then Some (JObj [], t)
                 else if d = CHR 0x22
                 then map_option (\<lambda>(ps, u). (JObj (dict_of ps), u)) (parse_pairs n t)
                 else None)
          else if c = CHR ''['' then
            (case skip_ws r of
               [] \<Rightarrow> None
             | d # t \<Rightarrow>
                 if d = CHR '']'' then Some (JList [], t)
                 else map_option (\<lambda>(xs, u). (JList xs, u)) (parse_items n (d # t)))
          else if take 4 s = ''null'' then Some (JNull, drop 4 s)
          else if take 4 s = ''true'' then Some (JBool True, drop 4 s)
          else if take 5 s = ''false'' then Some (JBool False, drop 5 s)
          else map_option (\<lambda>(i, t). (JInt i, t)) (parse_int s))"
| "parse_items 0 s = None"
| "parse_items (Suc n) s =
     (case parse_value n s of
        None \<Rightarrow> None
      | Some (x, r) \<Rightarrow>
          (case skip_ws r of
             [] \<Rightarrow> None
           | d # t \<Rightarrow>
               if d = CHR '']'' then Some ([x], t)
               else if d = CHR '','' then
                 map_option (\<lambda>(xs, u). (x # xs, u)) (parse_items n (skip_ws t))
               else None))"
| "parse_pairs 0 s = None"
| "parse_pairs (Suc n) s =
     (case scanstring s of
        None \<Rightarrow> None
      | Some (k, r) \<Rightarrow>
          (case skip_ws r of
             [] \<Rightarrow> None
           | c # r1 \<Rightarrow>
               if c \<noteq> CHR '':'' then None
               else
                 (case parse_value n (skip_ws r1) of
                    None \<Rightarrow> None
                  | Some (v, r2) \<Rightarrow>
                      (case skip_ws r2 of
                         [] \<Rightarrow> None
                       | d # t \<Rightarrow>
                           if d = CHR ''}'' then Some ([(k, v)], t)
                           else if d = CHR '','' then
                             (case skip_ws t of
                                [] \<Rightarrow> None
                              | q # u \<Rightarrow>
                                  if q = CHR 0x22
                                  then map_option (\<lambda>(ps, w). ((k, v) # ps, w))
                                         (parse_pairs n u)
                                  else None)
                           else None))))"

text \<open>\<^verbatim>\<open>json.loads(s)\<close>: one value, with white space before and after it and nothing else.\<close>

definition loads :: "string \<Rightarrow> json option" where
  "loads s =
     (case parse_value (2 * length s + 1) (skip_ws s) of
        None \<Rightarrow> None
      | Some (v, r) \<Rightarrow> if skip_ws r = [] then Some v else None)"

text \<open>
  A Python dictionary holds each key once: the values that stand for Python objects are
  those in which no association list repeats a key.
\<close>

fun distinct_keys :: "json \<Rightarrow> bool"
  and distinct_keys_items :: "json list \<Rightarrow> bool"
  and distinct_keys_pairs :: "(string \<times> json) list \<Rightarrow> bool" where
  "distinct_keys (JList xs) = distinct_keys_items xs"
| "distinct_keys (JObj kvs) = (distinct (map fst kvs) \<and> distinct_keys_pairs kvs)"
| "distinct_keys _ = True"
| "distinct_keys_items [] = True"
| "distinct_keys_items (x # xs) = (distinct_keys x \<and> distinct_keys_items xs)"
| "distinct_keys_pairs [] = True"
| "distinct_keys_pairs ((k, v) # ps) = (distinct_keys v \<and> distinct_keys_pairs ps)"

text \<open>The text goes on with something else than a digit, so that an integer ends here.\<close>

definition no_digit_ahead :: "string \<Rightarrow> bool" where
  "no_digit_ahead r = (case r of [] \<Rightarrow> True | c # _ \<Rightarrow> \<not> is_digit c)"

section \<open>Properties\<close>

subsection \<open>Reading from the stream, and the exchange of a command\<close>

text \<open>One step of \<^verbatim>\<open>__json_read\<close>, by what the stream holds next.\<close>

lemma json_read_Line:
  "sockfile st \<Longrightarrow> inbox st = Line (Json m) # r \<Longrightarrow>
   json_read oe st =
     (if has_key ''event'' m then
        if \<not> oe then json_read oe (st\<lparr>inbox := r, events := events st @ [m]\<rparr>)
        else (Returns (Some m), st\<lparr>inbox := r, events := events st @ [m]\<rparr>)
      else (Returns (Some m), st\<lparr>inbox := r\<rparr>))"
  by (subst json_read.simps) simp

lemma json_read_Malformed:
  "sockfile st \<Longrightarrow> inbox st = Line Malformed # r \<Longrightarrow>
   json_read oe st = (Raises ValueError, st\<lparr>inbox := r\<rparr>)"
  by (subst json_read.simps) simp

lemma json_read_Eof:
  "sockfile st \<Longrightarrow> inbox st = Eof # r \<Longrightarrow> json_read oe st = (Returns None, st)"
  by (subst json_read.simps) simp

lemma json_read_Fail:
  "sockfile st \<Longrightarrow> inbox st = Fail e # r \<Longrightarrow>
   json_read oe st = (Raises (SocketError (Errno e)), st\<lparr>inbox := r\<rparr>)"
  by (subst json_read.simps) simp

lemma json_read_Nil:
  "sockfile st \<Longrightarrow> inbox st = [] \<Longrightarrow>
   json_read oe st = (if blocking st then Blocks else Returns None, st)"
  by (subst json_read.simps) simp

lemma json_read_Gap_nonblocking:
  "sockfile st \<Longrightarrow> \<not> blocking st \<Longrightarrow> inbox st = Gap # r \<Longrightarrow>
   json_read oe st = (Returns None, st\<lparr>inbox := r\<rparr>)"
  by (subst json_read.simps) simp

lemma json_read_Gap_blocking:
  "sockfile st \<Longrightarrow> blocking st \<Longrightarrow> inbox st = Gap # r \<Longrightarrow>
   json_read oe st = json_read oe (st\<lparr>inbox := r\<rparr>)"
  by (subst json_read.simps, subst (2) json_read.simps)
     (simp split: prod.splits outcome.splits option.splits)

lemma json_read_no_sockfile:
  "\<not> sockfile st \<Longrightarrow> json_read oe st = (Raises AttributeError, st)"
  by (subst json_read.simps) simp

lemma json_read_events_then_response:
  "sockfile st \<Longrightarrow> inbox st = map (\<lambda>e. Line (Json e)) evs @ Line (Json resp) # rest \<Longrightarrow>
   \<forall>e\<in>set evs. has_key ''event'' e \<Longrightarrow> \<not> has_key ''event'' resp \<Longrightarrow>
   json_read False st = (Returns (Some resp), st\<lparr>inbox := rest, events := events st @ evs\<rparr>)"
proof (induction evs arbitrary: st)
  case Nil
  then show ?case by (simp add: json_read_Line)
next
  case (Cons e evs)
  let ?st = "st\<lparr>inbox := map (\<lambda>e. Line (Json e)) evs @ Line (Json resp) # rest,
                 events := events st @ [e]\<rparr>"
  from Cons.prems have "json_read False st = json_read False ?st"
    by (simp add: json_read_Line)
  also have "\<dots> = (Returns (Some resp), ?st\<lparr>inbox := rest, events := events ?st @ evs\<rparr>)"
    using Cons.prems by (intro Cons.IH) simp_all
  finally show ?case by simp
qed

text \<open>
  What a non-blocking read leaves behind when no line is malformed and no read fails.
\<close>

lemma json_read_nonblocking:
  "sockfile st \<Longrightarrow> \<not> blocking st \<Longrightarrow> inbox st = xs \<Longrightarrow>
   Line Malformed \<notin> set xs \<Longrightarrow> \<forall>e. Fail e \<notin> set xs \<Longrightarrow>
   \<exists>x st'. json_read False st = (Returns x, st')
      \<and> sockfile st' \<and> (\<exists>extra. events st' = events st @ extra)
      \<and> Line Malformed \<notin> set (inbox st') \<and> (\<forall>e. Fail e \<notin> set (inbox st'))"
proof (induction xs arbitrary: st)
  case Nil
  then show ?case by (simp add: json_read_Nil)
next
  case (Cons x xs)
  show ?case
  proof (cases x)
    case (Line l)
    with Cons.prems obtain m where l: "l = Json m" by (cases l) auto
    show ?thesis
    proof (cases "has_key ''event'' m")
      case True
      let ?st = "st\<lparr>inbox := xs, events := events st @ [m]\<rparr>"
      have "\<exists>x st'. json_read False ?st = (Returns x, st')
              \<and> sockfile st' \<and> (\<exists>extra. events st' = events ?st @ extra)
              \<and> Line Malformed \<notin> set (inbox st') \<and> (\<forall>e. Fail e \<notin> set (inbox st'))"
        using Cons.prems by (intro Cons.IH) simp_all
      moreover have "json_read False st = json_read False ?st"
        using Cons.prems Line l True by (simp add: json_read_Line)
      ultimately show ?thesis by auto
    next
      case False
      then show ?thesis
        using Cons.prems Line l by (simp add: json_read_Line)
    qed
  next
    case Eof
    then show ?thesis using Cons.prems by (simp add: json_read_Eof)
  next
    case Gap
    then show ?thesis
      using Cons.prems by (simp add: json_read_Gap_nonblocking)
  next
    case (Fail e)
    then show ?thesis using Cons.prems by auto
  qed
qed

lemma read_pending_appends:
  assumes "sockfile st" "Line Malformed \<notin> set (inbox st)" "\<forall>e. Fail e \<notin> set (inbox st)"
  shows "\<exists>st'. read_pending st = (Returns (), st') \<and> sockfile st' \<and> blocking st'
      \<and> (\<exists>extra. events st' = events st @ extra)
      \<and> Line Malformed \<notin> set (inbox st') \<and> (\<forall>e. Fail e \<notin> set (inbox st'))"
proof -
  from json_read_nonblocking [of "st\<lparr>blocking := False\<rparr>" "inbox st"] assms
  obtain x st1 extra where r: "json_read False (st\<lparr>blocking := False\<rparr>) = (Returns x, st1)"
      "sockfile st1" "events st1 = events st @ extra" "Line Malformed \<notin> set (inbox st1)"
      "\<forall>e. Fail e \<notin> set (inbox st1)"
    by auto
  then show ?thesis by (auto simp: read_pending_def)
qed

lemma pull_event_front:
  assumes "sockfile st" "Line Malformed \<notin> set (inbox st)" "\<forall>e. Fail e \<notin> set (inbox st)"
    and "events st = e # es"
  shows "\<exists>st'. pull_event w st = (Returns e, st') \<and> sockfile st'
           \<and> (\<exists>extra. events st' = es @ extra)
           \<and> Line Malformed \<notin> set (inbox st') \<and> (\<forall>e. Fail e \<notin> set (inbox st'))"
proof -
  from read_pending_appends [OF assms(1) assms(2) assms(3)]
  obtain st1 extra where st1: "read_pending st = (Returns (), st1)" "sockfile st1"
      "events st1 = events st @ extra" "Line Malformed \<notin> set (inbox st1)"
      "\<forall>e. Fail e \<notin> set (inbox st1)"
    by blast
  then show ?thesis
    using assms(4) by (simp add: pull_event_def pop_first_def)
qed

lemma pull_event_repeat_front:
  "sockfile st \<Longrightarrow> Line Malformed \<notin> set (inbox st) \<Longrightarrow> \<forall>e. Fail e \<notin> set (inbox st) \<Longrightarrow>
   events st = evs @ extra \<Longrightarrow>
   fst (pull_event_repeat (length evs) st) = map Returns evs"
proof (induction evs arbitrary: st extra)
  case Nil
  then show ?case by simp
next
  case (Cons e evs)
  from pull_event_front [of st e "evs @ extra" False] Cons.prems
  obtain st1 extra1 where st1: "pull_event False st = (Returns e, st1)" "sockfile st1"
      "events st1 = evs @ extra @ extra1" "Line Malformed \<notin> set (inbox st1)"
      "\<forall>e. Fail e \<notin> set (inbox st1)"
    by auto
  from Cons.IH [OF st1(2) st1(4) st1(5) st1(3)] st1(1) show ?case
    by (cases "pull_event_repeat (length evs) st1") simp
qed

lemma sendall_writable:
  "writable st \<Longrightarrow> fst (sendall m st) = Returns ()"
  "sockfile (snd (sendall m st)) = sockfile st"
  "inbox (snd (sendall m st)) = inbox st"
  "events (snd (sendall m st)) = events st"
  "blocking (snd (sendall m st)) = blocking st"
  "writable st \<Longrightarrow> sent (snd (sendall m st)) = sent st @ [m]"
  by (auto simp: sendall_def writable_def split: list.splits option.splits)

lemma cmd_obj_writable:
  "writable st \<Longrightarrow> cmd_obj m st = json_read False (snd (sendall m st))"
  using sendall_writable(1) [of st m]
  by (cases "sendall m st") (simp add: cmd_obj_def)

text \<open>
  Claim C1. When the peer sends the events \<open>evs\<close> and then the response \<open>resp\<close>,
  \<^verbatim>\<open>cmd\<close> appends the events to the queue in the order of arrival and returns the
  response; \<^verbatim>\<open>command\<close> returns the value under \<^verbatim>\<open>return\<close> of a response without
  \<^verbatim>\<open>error\<close>, whether or not events came first; and when the queue was empty before,
  the next calls of \<^verbatim>\<open>pull_event\<close>, as many as there were events, return those events
  in the order sent (whatever arrives later, as long as it is JSON and no read of the
  socket fails).
\<close>

theorem cmd_queues_events_then_returns:
  assumes "sockfile st" and "writable st"
    and "inbox st = map (\<lambda>e. Line (Json e)) evs @ Line (Json resp) # rest"
    and "\<forall>e\<in>set evs. has_key ''event'' e"
    and "\<not> has_key ''event'' resp"
  shows "cmd name args ident st =
           (Returns (Some resp),
            (snd (sendall (qmp_cmd name args ident) st))
              \<lparr>inbox := rest, events := events st @ evs\<rparr>)
       \<and> (\<not> has_key ''error'' resp \<longrightarrow> map_of resp ''return'' = Some v \<longrightarrow>
            command name kwds st =
              (Returns v,
               (snd (sendall (qmp_cmd name (JObj kwds) JNull) st))
                 \<lparr>inbox := rest, events := events st @ evs\<rparr>))
       \<and> (events st = [] \<longrightarrow> Line Malformed \<notin> set rest \<longrightarrow> (\<forall>e. Fail e \<notin> set rest) \<longrightarrow>
            fst (pull_event_repeat (length evs) (snd (cmd name args ident st)))
              = map Returns evs
          \<and> fst (pull_event_repeat (length evs) (snd (command name kwds st)))
              = map Returns evs)"
proof -
  have exchange: "cmd_obj m st =
      (Returns (Some resp), (snd (sendall m st))\<lparr>inbox := rest, events := events st @ evs\<rparr>)"
    for m
    using assms json_read_events_then_response [of "snd (sendall m st)" evs resp rest]
    by (simp add: cmd_obj_writable sendall_writable)
  have pulls: "fst (pull_event_repeat (length evs)
                 ((snd (sendall m st))\<lparr>inbox := rest, events := events st @ evs\<rparr>))
               = map Returns evs"
    if "events st = []" "Line Malformed \<notin> set rest" "\<forall>e. Fail e \<notin> set rest" for m
    using that assms(1)
    by (intro pull_event_repeat_front [where extra = "[]"]) (simp_all add: sendall_writable)
  have snd_command: "snd (command name kwds st) =
      (snd (sendall (qmp_cmd name (JObj kwds) JNull) st))
        \<lparr>inbox := rest, events := events st @ evs\<rparr>"
    by (simp add: command_def cmd_def exchange split: outcome.splits)
  show ?thesis
  proof (intro conjI impI)
    show "cmd name args ident st =
           (Returns (Some resp),
            (snd (sendall (qmp_cmd name args ident) st))
              \<lparr>inbox := rest, events := events st @ evs\<rparr>)"
      by (simp add: cmd_def exchange)
  next
    assume "\<not> has_key ''error'' resp" "map_of resp ''return'' = Some v"
    then show "command name kwds st =
              (Returns v,
               (snd (sendall (qmp_cmd name (JObj kwds) JNull) st))
                 \<lparr>inbox := rest, events := events st @ evs\<rparr>)"
      by (simp add: command_def cmd_def exchange getitem_def)
  next
    assume "events st = []" "Line Malformed \<notin> set rest" "\<forall>e. Fail e \<notin> set rest"
    then show "fst (pull_event_repeat (length evs) (snd (cmd name args ident st)))
              = map Returns evs"
      using pulls by (simp add: cmd_def exchange)
  next
    assume "events st = []" "Line Malformed \<notin> set rest" "\<forall>e. Fail e \<notin> set rest"
    then show "fst (pull_event_repeat (length evs) (snd (command name kwds st)))
              = map Returns evs"
      using pulls by (simp add: snd_command)
  qed
qed


text \<open>Two events and the response to \<^verbatim>\<open>query-status\<close>.\<close>

theorem cmd_queues_events_then_returns_witness:
  "sockfile \<lparr>events = [],
      inbox = [Line (Json [(''event'', JStr ''STOP'')]),
               Line (Json [(''event'', JStr ''RESUME'')]),
               Line (Json [(''return'', JObj [(''running'', JBool True)])])],
      blocking = True, sendrc = [], sent = [], sockfile = True, refused = None\<rparr>
   \<and> cmd ''query-status'' JNull JNull
       \<lparr>events = [],
        inbox = [Line (Json [(''event'', JStr ''STOP'')]),
                 Line (Json [(''event'', JStr ''RESUME'')]),
                 Line (Json [(''return'', JObj [(''running'', JBool True)])])],
        blocking = True, sendrc = [], sent = [], sockfile = True, refused = None\<rparr>
     = (Returns (Some [(''return'', JObj [(''running'', JBool True)])]),
        \<lparr>events = [[(''event'', JStr ''STOP'')], [(''event'', JStr ''RESUME'')]],
         inbox = [], blocking = True, sendrc = [],
         sent = [[(''execute'', JStr ''query-status'')]],
         sockfile = True, refused = None\<rparr>)
   \<and> fst (command ''query-status'' []
       \<lparr>events = [],
        inbox = [Line (Json [(''event'', JStr ''STOP'')]),
                 Line (Json [(''event'', JStr ''RESUME'')]),
                 Line (Json [(''return'', JObj [(''running'', JBool True)])])],
        blocking = True, sendrc = [], sent = [], sockfile = True, refused = None\<rparr>)
     = Returns (JObj [(''running'', JBool True)])
   \<and> fst (pull_event_repeat 2 (snd (cmd ''query-status'' JNull JNull
       \<lparr>events = [],
        inbox = [Line (Json [(''event'', JStr ''STOP'')]),
                 Line (Json [(''event'', JStr ''RESUME'')]),
                 Line (Json [(''return'', JObj [(''running'', JBool True)])])],
        blocking = True, sendrc = [], sent = [], sockfile = True, refused = None\<rparr>)))
     = [Returns [(''event'', JStr ''STOP'')], Returns [(''event'', JStr ''RESUME'')]]"
proof -
  let ?st = "\<lparr>events = [],
      inbox = [Line (Json [(''event'', JStr ''STOP'')]),
               Line (Json [(''event'', JStr ''RESUME'')]),
               Line (Json [(''return'', JObj [(''running'', JBool True)])])],
      blocking = True, sendrc = [], sent = [], sockfile = True, refused = None\<rparr>"
  let ?evs = "[[(''event'', JStr ''STOP'')], [(''event'', JStr ''RESUME'')]]"
  let ?resp = "[(''return'', JObj [(''running'', JBool True)])]"
  have h1: "sockfile ?st" by simp
  have h2: "writable ?st" by (simp add: writable_def)
  have h3: "inbox ?st = map (\<lambda>e. Line (Json e)) ?evs @ Line (Json ?resp) # []" by simp
  have h4: "\<forall>e\<in>set ?evs. has_key ''event'' e" by (simp add: has_key_def)
  have h5: "\<not> has_key ''event'' ?resp" by (simp add: has_key_def)
  have h6: "\<not> has_key ''error'' ?resp" by (simp add: has_key_def)
  have h7: "map_of ?resp ''return'' = Some (JObj [(''running'', JBool True)])" by simp
  have h8: "events ?st = []" by simp
  have h9: "Line Malformed \<notin> set []" by simp
  have h10: "\<forall>e. Fail e \<notin> set []" by simp
  have len: "length ?evs = 2" by simp
  note t = cmd_queues_events_then_returns [OF h1 h2 h3 h4 h5,
      of "''query-status''" JNull JNull "JObj [(''running'', JBool True)]" "[]"]
  have c1: "cmd ''query-status'' JNull JNull ?st
     = (Returns (Some ?resp),
        \<lparr>events = ?evs, inbox = [], blocking = True, sendrc = [],
         sent = [[(''execute'', JStr ''query-status'')]],
         sockfile = True, refused = None\<rparr>)"
    by (simp add: t [THEN conjunct1] sendall_def qmp_cmd_def)
  have c2: "fst (command ''query-status'' [] ?st) = Returns (JObj [(''running'', JBool True)])"
    by (simp add: t [THEN conjunct2, THEN conjunct1, rule_format, OF h6 h7])
  have c3: "fst (pull_event_repeat 2 (snd (cmd ''query-status'' JNull JNull ?st)))
     = [Returns [(''event'', JStr ''STOP'')], Returns [(''event'', JStr ''RESUME'')]]"
    using t [THEN conjunct2, THEN conjunct2, THEN mp, THEN mp, THEN mp, OF h8 h9 h10,
        THEN conjunct1]
    by (simp only: len list.map)
  show ?thesis
    by (intro conjI h1 c1 c2 c3)
qed

subsection \<open>The command written\<close>

lemma json_read_skips_events:
  "sockfile st \<Longrightarrow> inbox st = map (\<lambda>e. Line (Json e)) evs @ r \<Longrightarrow>
   \<forall>e\<in>set evs. has_key ''event'' e \<Longrightarrow>
   json_read False st = json_read False (st\<lparr>inbox := r, events := events st @ evs\<rparr>)"
proof (induction evs arbitrary: st)
  case Nil
  then have "st\<lparr>inbox := r, events := events st @ []\<rparr> = st" by simp
  then show ?case by simp
next
  case (Cons e evs)
  let ?st = "st\<lparr>inbox := map (\<lambda>e. Line (Json e)) evs @ r, events := events st @ [e]\<rparr>"
  from Cons.prems have "json_read False st = json_read False ?st"
    by (simp add: json_read_Line)
  also have "\<dots> = json_read False (?st\<lparr>inbox := r, events := events ?st @ evs\<rparr>)"
    using Cons.prems by (intro Cons.IH) simp_all
  finally show ?case by simp
qed

lemma json_read_waits:
  "sockfile st \<Longrightarrow> blocking st \<Longrightarrow> inbox st = replicate k Gap @ r \<Longrightarrow>
   json_read oe st = json_read oe (st\<lparr>inbox := r\<rparr>)"
proof (induction k arbitrary: st)
  case 0
  then have "st\<lparr>inbox := r\<rparr> = st" by simp
  then show ?case by simp
next
  case (Suc k)
  let ?st = "st\<lparr>inbox := replicate k Gap @ r\<rparr>"
  from Suc.prems have "json_read oe st = json_read oe ?st"
    by (simp add: json_read_Gap_blocking)
  also have "\<dots> = json_read oe (?st\<lparr>inbox := r\<rparr>)"
    using Suc.prems by (intro Suc.IH) simp_all
  finally show ?case by simp
qed

lemma json_read_sent: "sent (snd (json_read oe st)) = sent st"
proof (induction oe st rule: json_read.induct)
  case (1 oe st)
  show ?case
  proof (cases "sockfile st")
    case False
    then show ?thesis by (simp add: json_read_no_sockfile)
  next
    case True
    obtain x r where xr: "readline (blocking st) (inbox st) = (x, r)"
      by (cases "readline (blocking st) (inbox st)")
    show ?thesis
    proof (cases "\<exists>data resp. x = Returns (Some data) \<and> json_loads data = Returns resp
                    \<and> has_key ''event'' resp \<and> \<not> oe")
      case False
      with True xr show ?thesis
        by (subst json_read.simps)
           (auto split: outcome.splits option.splits)
    next
      case True
      then obtain data resp where d: "x = Returns (Some data)" "json_loads data = Returns resp"
          "has_key ''event'' resp" "\<not> oe"
        by blast
      have "sent (snd (json_read oe (st\<lparr>inbox := r, events := events st @ [resp]\<rparr>)))
              = sent (st\<lparr>inbox := r, events := events st @ [resp]\<rparr>)"
        using \<open>sockfile st\<close> xr d by (intro "1.IH" [of x r "Some data" data resp]) simp_all
      moreover have "json_read oe st
              = json_read oe (st\<lparr>inbox := r, events := events st @ [resp]\<rparr>)"
        using \<open>sockfile st\<close> xr d by (subst json_read.simps) simp
      ultimately show ?thesis by simp
    qed
  qed
qed

lemma cmd_obj_sent:
  "sent (snd (cmd_obj m st)) = (if writable st then sent st @ [m] else sent st)"
  by (auto simp: cmd_obj_def sendall_def writable_def json_read_sent arg0_def
           split: list.splits option.splits)


text \<open>
  Claim C10. The command that \<^verbatim>\<open>cmd(name, args, id)\<close> writes holds the key
  \<^verbatim>\<open>arguments\<close> exactly when \<open>args\<close> is true in Python's sense and the key \<^verbatim>\<open>id\<close>
  exactly when \<open>id\<close> is. An empty dictionary of arguments is false: the command goes
  out without \<^verbatim>\<open>arguments\<close>, the same as with no arguments at all, and is not the
  object with empty arguments.
\<close>

theorem cmd_writes_optional_keys:
  "(writable st \<longrightarrow> sent (snd (cmd name args ident st)) = sent st @ [qmp_cmd name args ident])
   \<and> has_key ''execute'' (qmp_cmd name args ident)
   \<and> has_key ''arguments'' (qmp_cmd name args ident) = truthy args
   \<and> has_key ''id'' (qmp_cmd name args ident) = truthy ident
   \<and> \<not> has_key ''arguments'' (qmp_cmd name (JObj []) ident)
   \<and> qmp_cmd name (JObj []) ident = qmp_cmd name JNull ident
   \<and> qmp_cmd name (JObj []) JNull \<noteq> [(''execute'', JStr name), (''arguments'', JObj [])]"
  by (simp add: cmd_def cmd_obj_sent qmp_cmd_def has_key_def)

theorem cmd_writes_optional_keys_witness:
  "writable \<lparr>events = [], inbox = [], blocking = True, sendrc = [], sent = [],
             sockfile = True, refused = None\<rparr>
   \<and> sent (snd (cmd ''device_add'' (JObj [(''driver'', JStr ''e1000'')]) (JInt 7)
        \<lparr>events = [], inbox = [], blocking = True, sendrc = [], sent = [],
         sockfile = True, refused = None\<rparr>))
     = [[(''execute'', JStr ''device_add''),
         (''arguments'', JObj [(''driver'', JStr ''e1000'')]),
         (''id'', JInt 7)]]
   \<and> sent (snd (cmd ''query-status'' (JObj []) (JInt 0)
        \<lparr>events = [], inbox = [], blocking = True, sendrc = [], sent = [],
         sockfile = True, refused = None\<rparr>))
     = [[(''execute'', JStr ''query-status'')]]"
proof -
  let ?st = "\<lparr>events = [], inbox = [], blocking = True, sendrc = [], sent = [],
             sockfile = True, refused = None\<rparr>"
  have w: "writable ?st" by (simp add: writable_def)
  have a: "sent (snd (cmd ''device_add'' (JObj [(''driver'', JStr ''e1000'')]) (JInt 7) ?st))
     = [[(''execute'', JStr ''device_add''),
         (''arguments'', JObj [(''driver'', JStr ''e1000'')]),
         (''id'', JInt 7)]]"
    using cmd_writes_optional_keys [of ?st "''device_add''"
        "JObj [(''driver'', JStr ''e1000'')]" "JInt 7", THEN conjunct1, rule_format, OF w]
    by (simp add: qmp_cmd_def)
  have b: "sent (snd (cmd ''query-status'' (JObj []) (JInt 0) ?st))
     = [[(''execute'', JStr ''query-status'')]]"
    using cmd_writes_optional_keys [of ?st "''query-status''" "JObj []" "JInt 0",
        THEN conjunct1, rule_format, OF w]
    by (simp add: qmp_cmd_def)
  show ?thesis by (intro conjI w a b)
qed

subsection \<open>Negotiation, closed connections and errors of the peer\<close>

lemma json_read_events_then_eof:
  "sockfile st \<Longrightarrow> inbox st = map (\<lambda>e. Line (Json e)) evs @ Eof # rest \<Longrightarrow>
   \<forall>e\<in>set evs. has_key ''event'' e \<Longrightarrow>
   json_read False st = (Returns None, st\<lparr>inbox := Eof # rest, events := events st @ evs\<rparr>)"
  by (simp add: json_read_skips_events [where r = "Eof # rest"] json_read_Eof)

lemma cmd_obj_exchange:
  "sockfile st \<Longrightarrow> writable st \<Longrightarrow>
   inbox st = map (\<lambda>e. Line (Json e)) evs @ Line (Json resp) # rest \<Longrightarrow>
   \<forall>e\<in>set evs. has_key ''event'' e \<Longrightarrow> \<not> has_key ''event'' resp \<Longrightarrow>
   cmd_obj m st =
     (Returns (Some resp), (snd (sendall m st))\<lparr>inbox := rest, events := events st @ evs\<rparr>)"
  using json_read_events_then_response [of "snd (sendall m st)" evs resp rest]
  by (simp add: cmd_obj_writable sendall_writable)

lemma sendall_sendrc:
  "sendrc (snd (sendall m st)) = tl (sendrc st)"
  "refused (snd (sendall m st)) = refused st"
  by (auto simp: sendall_def split: list.splits option.splits)

text \<open>
  Claim C3, as stated, fails: nothing in \<^verbatim>\<open>cmd\<close> looks at whether capabilities were
  negotiated. After \<^verbatim>\<open>connect(negotiate=False)\<close> a command is written and answered.
\<close>

theorem cmd_before_negotiation_counterexample:
  "cmd ''query-status'' JNull JNull
     (snd (connect False
        \<lparr>events = [], inbox = [Line (Json [(''return'', JObj [(''running'', JBool True)])])],
         blocking = True, sendrc = [], sent = [], sockfile = False, refused = None\<rparr>))
   = (Returns (Some [(''return'', JObj [(''running'', JBool True)])]),
      \<lparr>events = [], inbox = [], blocking = True, sendrc = [],
       sent = [[(''execute'', JStr ''query-status'')]], sockfile = True, refused = None\<rparr>)"
  by (simp add: connect_def cmd_def cmd_obj_def sendall_def qmp_cmd_def json_read_Line
                has_key_def)

text \<open>
  Claim C3, amended. \<^verbatim>\<open>cmd\<close> has no precondition on negotiation: on a session
  connected without negotiation the command is written and the peer's response
  returned, just as it is after a successful negotiation.
\<close>

theorem cmd_checks_no_negotiation:
  assumes "refused st = None" and "sendrc st = []" and "\<not> has_key ''event'' resp"
  shows "(inbox st = Line (Json resp) # rest \<longrightarrow>
            fst (connect False st) = Returns None
          \<and> fst (cmd name args ident (snd (connect False st))) = Returns (Some resp)
          \<and> sent (snd (cmd name args ident (snd (connect False st))))
              = sent st @ [qmp_cmd name args ident])
       \<and> (inbox st = Line (Json greeting) # Line (Json caps) # Line (Json resp) # rest \<longrightarrow>
          \<not> has_key ''event'' greeting \<longrightarrow> has_key ''QMP'' greeting \<longrightarrow>
          \<not> has_key ''event'' caps \<longrightarrow> has_key ''return'' caps \<longrightarrow>
            fst (connect True st) = Returns (Some greeting)
          \<and> fst (cmd name args ident (snd (connect True st))) = Returns (Some resp)
          \<and> sent (snd (cmd name args ident (snd (connect True st))))
              = sent st @ [[(''execute'', JStr ''qmp_capabilities'')], qmp_cmd name args ident])"
proof (intro conjI impI)
  assume i: "inbox st = Line (Json resp) # rest"
  let ?st1 = "st\<lparr>sockfile := True\<rparr>"
  have c: "connect False st = (Returns None, ?st1)"
    using assms(1) by (simp add: connect_def)
  have w: "writable ?st1" using assms(2) by (simp add: writable_def)
  have x: "cmd_obj m ?st1 =
      (Returns (Some resp), (snd (sendall m ?st1))\<lparr>inbox := rest, events := events ?st1 @ []\<rparr>)"
    for m
    using i assms(3) w by (intro cmd_obj_exchange) simp_all
  show "fst (connect False st) = Returns None" by (simp add: c)
  show "fst (cmd name args ident (snd (connect False st))) = Returns (Some resp)"
    using x [of "qmp_cmd name args ident"] by (simp add: c cmd_def)
  show "sent (snd (cmd name args ident (snd (connect False st))))
          = sent st @ [qmp_cmd name args ident]"
    using w by (simp add: c cmd_def cmd_obj_sent)
next
  assume i: "inbox st = Line (Json greeting) # Line (Json caps) # Line (Json resp) # rest"
    and g: "\<not> has_key ''event'' greeting" "has_key ''QMP'' greeting"
    and k: "\<not> has_key ''event'' caps" "has_key ''return'' caps"
  let ?st0 = "st\<lparr>sockfile := True\<rparr>"
  let ?st1 = "?st0\<lparr>inbox := Line (Json caps) # Line (Json resp) # rest\<rparr>"
  let ?m = "qmp_cmd ''qmp_capabilities'' JNull JNull"
  let ?st2 = "(snd (sendall ?m ?st1))\<lparr>inbox := Line (Json resp) # rest, events := events ?st1 @ []\<rparr>"
  have r0: "json_read False ?st0 = (Returns (Some greeting), ?st1)"
    using i g by (simp add: json_read_Line)
  have w1: "writable ?st1" using assms(2) by (simp add: writable_def)
  have r1: "cmd_obj ?m ?st1 = (Returns (Some caps), ?st2)"
    using k w1 by (intro cmd_obj_exchange) simp_all
  have n: "negotiate_capabilities ?st0 = (Returns greeting, ?st2)"
    using g k by (simp add: negotiate_capabilities_def r0 cmd_def r1)
  have c: "connect True st = (Returns (Some greeting), ?st2)"
    using assms(1) by (simp add: connect_def n)
  have w2: "writable ?st2"
    using assms(2) by (simp add: writable_def sendall_sendrc)
  have x: "cmd_obj m ?st2 =
      (Returns (Some resp), (snd (sendall m ?st2))\<lparr>inbox := rest, events := events ?st2 @ []\<rparr>)"
    for m
    using assms(3) w2 by (intro cmd_obj_exchange) (simp_all add: sendall_writable)
  show "fst (connect True st) = Returns (Some greeting)" by (simp add: c)
  show "fst (cmd name args ident (snd (connect True st))) = Returns (Some resp)"
    using x [of "qmp_cmd name args ident"] by (simp add: c cmd_def)
  show "sent (snd (cmd name args ident (snd (connect True st))))
          = sent st @ [[(''execute'', JStr ''qmp_capabilities'')], qmp_cmd name args ident]"
    using w1 w2 by (simp add: c cmd_def cmd_obj_sent sendall_writable qmp_cmd_def)
qed


text \<open>The same command without a negotiation and after one.\<close>

theorem cmd_checks_no_negotiation_witness:
  "refused \<lparr>events = [], inbox = [Line (Json [(''return'', JInt 1)])], blocking = True,
            sendrc = [], sent = [], sockfile = False, refused = None\<rparr> = None
   \<and> \<not> has_key ''event'' [(''return'', JInt 1)]
   \<and> fst (cmd ''query-status'' JNull JNull (snd (connect False
        \<lparr>events = [], inbox = [Line (Json [(''return'', JInt 1)])], blocking = True,
         sendrc = [], sent = [], sockfile = False, refused = None\<rparr>)))
      = Returns (Some [(''return'', JInt 1)])
   \<and> fst (cmd ''query-status'' JNull JNull (snd (connect True
        \<lparr>events = [],
         inbox = [Line (Json [(''QMP'', JObj [])]), Line (Json [(''return'', JObj [])]),
                  Line (Json [(''return'', JInt 1)])],
         blocking = True, sendrc = [], sent = [], sockfile = False, refused = None\<rparr>)))
      = Returns (Some [(''return'', JInt 1)])"
proof -
  let ?resp = "[(''return'', JInt 1)]"
  let ?a = "\<lparr>events = [], inbox = [Line (Json ?resp)], blocking = True,
            sendrc = [], sent = [], sockfile = False, refused = None\<rparr>"
  let ?b = "\<lparr>events = [],
         inbox = [Line (Json [(''QMP'', JObj [])]), Line (Json [(''return'', JObj [])]),
                  Line (Json ?resp)],
         blocking = True, sendrc = [], sent = [], sockfile = False, refused = None\<rparr>"
  have e: "\<not> has_key ''event'' ?resp" by (simp add: has_key_def)
  have a1: "refused ?a = None" and a2: "sendrc ?a = []"
    and a3: "inbox ?a = Line (Json ?resp) # []" by simp_all
  have b1: "refused ?b = None" and b2: "sendrc ?b = []"
    and b3: "inbox ?b = Line (Json [(''QMP'', JObj [])]) # Line (Json [(''return'', JObj [])])
                         # Line (Json ?resp) # []" by simp_all
  have g: "\<not> has_key ''event'' [(''QMP'', JObj [])]" "has_key ''QMP'' [(''QMP'', JObj [])]"
      "\<not> has_key ''event'' [(''return'', JObj [])]" "has_key ''return'' [(''return'', JObj [])]"
    by (simp_all add: has_key_def)
  have ra: "fst (cmd ''query-status'' JNull JNull (snd (connect False ?a))) = Returns (Some ?resp)"
    using cmd_checks_no_negotiation [OF a1 a2 e, THEN conjunct1, rule_format, OF a3]
    by simp
  have rb: "fst (cmd ''query-status'' JNull JNull (snd (connect True ?b))) = Returns (Some ?resp)"
    using cmd_checks_no_negotiation [OF b1 b2 e, THEN conjunct2, rule_format, OF b3 g]
    by simp
  show ?thesis by (intro conjI a1 e ra rb)
qed

text \<open>
  Claim C5, as stated, fails: when the peer has shut the connection down, \<^verbatim>\<open>cmd_obj\<close>
  raises nothing; it returns \<^verbatim>\<open>None\<close>, as its docstring says.
\<close>

theorem cmd_obj_peer_closed_counterexample:
  "cmd_obj [(''execute'', JStr ''stop'')]
     \<lparr>events = [], inbox = [Eof], blocking = True, sendrc = [], sent = [],
      sockfile = True, refused = None\<rparr>
   = (Returns None,
      \<lparr>events = [], inbox = [Eof], blocking = True, sendrc = [],
       sent = [[(''execute'', JStr ''stop'')]], sockfile = True, refused = None\<rparr>)"
  by (simp add: cmd_obj_def sendall_def json_read_Eof)

text \<open>
  A write that fails never reaches the \<^verbatim>\<open>return\<close> of the handler nor its \<^verbatim>\<open>raise\<close>:
  \<^verbatim>\<open>err[0]\<close> raises \<^verbatim>\<open>TypeError\<close> first, for \<^verbatim>\<open>EPIPE\<close> as for every other errno.
\<close>

lemma cmd_obj_write_error:
  "sendrc st = Some e # r \<Longrightarrow> cmd_obj m st = (Raises TypeError, st\<lparr>sendrc := r\<rparr>)"
  by (simp add: cmd_obj_def sendall_def arg0_def)

text \<open>
  Claim C5, amended. When the stream ends before a response, \<^verbatim>\<open>cmd_obj\<close> raises
  nothing: it returns \<^verbatim>\<open>None\<close>, with the command written and the events read until
  then queued, also when it had to wait for the end of the stream. (What a failed
  write does is left out.)
\<close>

theorem cmd_obj_end_of_stream_returns_none:
  assumes "sockfile st" and "writable st"
  shows "(inbox st = map (\<lambda>e. Line (Json e)) evs @ Eof # rest \<longrightarrow>
          (\<forall>e\<in>set evs. has_key ''event'' e) \<longrightarrow>
            cmd_obj m st =
              (Returns None,
               (snd (sendall m st))\<lparr>inbox := Eof # rest, events := events st @ evs\<rparr>)
          \<and> sent (snd (cmd_obj m st)) = sent st @ [m])
       \<and> (blocking st \<longrightarrow> inbox st = replicate k Gap @ Eof # rest \<longrightarrow>
            cmd_obj m st = (Returns None, (snd (sendall m st))\<lparr>inbox := Eof # rest\<rparr>))"
proof (intro conjI impI)
  assume a: "inbox st = map (\<lambda>e. Line (Json e)) evs @ Eof # rest"
    "\<forall>e\<in>set evs. has_key ''event'' e"
  then show "cmd_obj m st =
      (Returns None, (snd (sendall m st))\<lparr>inbox := Eof # rest, events := events st @ evs\<rparr>)"
    using assms json_read_events_then_eof [of "snd (sendall m st)" evs rest]
    by (simp add: cmd_obj_writable sendall_writable)
  show "sent (snd (cmd_obj m st)) = sent st @ [m]"
    using assms(2) by (simp add: cmd_obj_sent)
next
  assume b: "blocking st" "inbox st = replicate k Gap @ Eof # rest"
  let ?st1 = "snd (sendall m st)"
  have "json_read False ?st1 = json_read False (?st1\<lparr>inbox := Eof # rest\<rparr>)"
    using assms(1) b by (intro json_read_waits [where k = k]) (simp_all add: sendall_writable)
  also have "\<dots> = (Returns None, ?st1\<lparr>inbox := Eof # rest\<rparr>)"
    using assms(1) by (simp add: json_read_Eof sendall_writable)
  finally show "cmd_obj m st = (Returns None, ?st1\<lparr>inbox := Eof # rest\<rparr>)"
    using assms(2) by (simp add: cmd_obj_writable)
qed

theorem cmd_obj_end_of_stream_returns_none_witness:
  "cmd_obj [(''execute'', JStr ''stop'')]
     \<lparr>events = [], inbox = [Line (Json [(''event'', JStr ''SHUTDOWN'')]), Eof],
      blocking = True, sendrc = [], sent = [], sockfile = True, refused = None\<rparr>
   = (Returns None,
      \<lparr>events = [[(''event'', JStr ''SHUTDOWN'')]], inbox = [Eof], blocking = True,
       sendrc = [], sent = [[(''execute'', JStr ''stop'')]], sockfile = True,
       refused = None\<rparr>)
   \<and> cmd_obj [(''execute'', JStr ''stop'')]
     \<lparr>events = [], inbox = [Gap, Gap, Eof],
      blocking = True, sendrc = [], sent = [], sockfile = True, refused = None\<rparr>
   = (Returns None,
      \<lparr>events = [], inbox = [Eof], blocking = True,
       sendrc = [], sent = [[(''execute'', JStr ''stop'')]], sockfile = True,
       refused = None\<rparr>)"
proof -
  let ?m = "[(''execute'', JStr ''stop'')]"
  let ?ev = "[(''event'', JStr ''SHUTDOWN'')]"
  let ?a = "\<lparr>events = [], inbox = [Line (Json ?ev), Eof],
      blocking = True, sendrc = [], sent = [], sockfile = True, refused = None\<rparr>"
  let ?b = "\<lparr>events = [], inbox = [Gap, Gap, Eof],
      blocking = True, sendrc = [], sent = [], sockfile = True, refused = None\<rparr>"
  have a: "sockfile ?a" "writable ?a" and b: "sockfile ?b" "writable ?b"
    by (simp_all add: writable_def)
  have ia: "inbox ?a = map (\<lambda>e. Line (Json e)) [?ev] @ Eof # []"
    and ea: "\<forall>e\<in>set [?ev]. has_key ''event'' e"
    by (simp_all add: has_key_def)
  have ib: "blocking ?b" "inbox ?b = replicate 2 Gap @ Eof # []"
    by (simp_all add: numeral_2_eq_2)
  have ra: "cmd_obj ?m ?a =
      (Returns None, (snd (sendall ?m ?a))\<lparr>inbox := Eof # [], events := events ?a @ [?ev]\<rparr>)"
    using cmd_obj_end_of_stream_returns_none [OF a, where m = ?m and evs = "[?ev]"
        and rest = "[]", THEN conjunct1] ia ea
    by blast
  have rb: "cmd_obj ?m ?b = (Returns None, (snd (sendall ?m ?b))\<lparr>inbox := Eof # []\<rparr>)"
    using cmd_obj_end_of_stream_returns_none [OF b, where m = ?m and k = 2
        and rest = "[]", THEN conjunct2] ib
    by blast
  from ra rb show ?thesis by (simp add: sendall_def)
qed

text \<open>
  Claim C6, as stated, fails: the exception that \<^verbatim>\<open>command\<close> raises carries the
  description alone. Two errors of different classes with the same description raise
  the same exception.
\<close>

theorem command_error_class_counterexample:
  "fst (command ''device_del'' [(''id'', JStr ''net0'')]
      \<lparr>events = [],
       inbox = [Line (Json [(''error'', JObj [(''class'', JStr ''DeviceNotFound''),
                                              (''desc'', JStr ''failed'')])])],
       blocking = True, sendrc = [], sent = [], sockfile = True, refused = None\<rparr>)
     = Raises (PyException (JStr ''failed''))
   \<and> fst (command ''device_del'' [(''id'', JStr ''net0'')]
      \<lparr>events = [],
       inbox = [Line (Json [(''error'', JObj [(''class'', JStr ''GenericError''),
                                              (''desc'', JStr ''failed'')])])],
       blocking = True, sendrc = [], sent = [], sockfile = True, refused = None\<rparr>)
     = Raises (PyException (JStr ''failed''))"
  by (simp add: command_def cmd_def cmd_obj_def sendall_def qmp_cmd_def json_read_Line
                has_key_def getitem_def)

text \<open>
  Claim C6, amended. When the response holds \<^verbatim>\<open>error\<close>, a dictionary with a
  description, \<^verbatim>\<open>command\<close> raises a plain \<^verbatim>\<open>Exception\<close> that carries the description and
  nothing of the class. The session is left as \<^verbatim>\<open>cmd\<close> leaves it, and the next command
  on it is answered as usual.
\<close>

theorem command_error_raises_desc:
  assumes "sockfile st" and "writable st"
    and "inbox st = map (\<lambda>e. Line (Json e)) evs @ Line (Json resp) # rest"
    and "\<forall>e\<in>set evs. has_key ''event'' e"
    and "\<not> has_key ''event'' resp"
    and "map_of resp ''error'' = Some (JObj err)"
    and "map_of err ''desc'' = Some desc"
  shows "fst (command name kwds st) = Raises (PyException desc)
       \<and> snd (command name kwds st) = snd (cmd name (JObj kwds) JNull st)
       \<and> sockfile (snd (command name kwds st))
       \<and> (writable (snd (command name kwds st)) \<longrightarrow>
            rest = Line (Json resp2) # rest2 \<longrightarrow> \<not> has_key ''event'' resp2 \<longrightarrow>
            \<not> has_key ''error'' resp2 \<longrightarrow> map_of resp2 ''return'' = Some v \<longrightarrow>
            fst (command name2 kwds2 (snd (command name kwds st))) = Returns v)"
proof -
  let ?m = "qmp_cmd name (JObj kwds) JNull"
  let ?st1 = "(snd (sendall ?m st))\<lparr>inbox := rest, events := events st @ evs\<rparr>"
  have x: "cmd name (JObj kwds) JNull st = (Returns (Some resp), ?st1)"
    using assms(1-5) by (simp add: cmd_def cmd_obj_exchange)
  have c: "command name kwds st = (Raises (PyException desc), ?st1)"
    using assms(6,7) by (simp add: command_def x has_key_def getitem_def)
  have s1: "sockfile ?st1" using assms(1) by (simp add: sendall_writable)
  have next_command: "fst (command name2 kwds2 ?st1) = Returns v"
    if w: "writable ?st1" and r: "rest = Line (Json resp2) # rest2"
      and e: "\<not> has_key ''event'' resp2" "\<not> has_key ''error'' resp2"
      and v: "map_of resp2 ''return'' = Some v"
  proof -
    let ?m2 = "qmp_cmd name2 (JObj kwds2) JNull"
    have "cmd_obj ?m2 ?st1 =
        (Returns (Some resp2),
         (snd (sendall ?m2 ?st1))\<lparr>inbox := rest2, events := events ?st1 @ []\<rparr>)"
      using s1 w r e(1) by (intro cmd_obj_exchange) simp_all
    then show ?thesis
      using e(2) v by (simp add: command_def cmd_def getitem_def)
  qed
  have eq: "snd (command name kwds st) = ?st1" by (simp add: c)
  show ?thesis
  proof (intro conjI impI)
    show "fst (command name kwds st) = Raises (PyException desc)" by (simp add: c)
    show "snd (command name kwds st) = snd (cmd name (JObj kwds) JNull st)"
      by (simp add: c x)
    show "sockfile (snd (command name kwds st))" using s1 by (simp only: eq)
  next
    assume "writable (snd (command name kwds st))" "rest = Line (Json resp2) # rest2"
      "\<not> has_key ''event'' resp2" "\<not> has_key ''error'' resp2"
      "map_of resp2 ''return'' = Some v"
    then show "fst (command name2 kwds2 (snd (command name kwds st))) = Returns v"
      unfolding eq by (rule next_command)
  qed
qed

theorem command_error_raises_desc_witness:
  "fst (command ''device_del'' [(''id'', JStr ''net0'')]
      \<lparr>events = [],
       inbox = [Line (Json [(''error'', JObj [(''class'', JStr ''DeviceNotFound''),
                                              (''desc'', JStr ''failed'')])]),
                Line (Json [(''return'', JInt 3)])],
       blocking = True, sendrc = [], sent = [], sockfile = True, refused = None\<rparr>)
     = Raises (PyException (JStr ''failed''))
   \<and> fst (command ''query-status'' []
       (snd (command ''device_del'' [(''id'', JStr ''net0'')]
          \<lparr>events = [],
           inbox = [Line (Json [(''error'', JObj [(''class'', JStr ''DeviceNotFound''),
                                                  (''desc'', JStr ''failed'')])]),
                    Line (Json [(''return'', JInt 3)])],
           blocking = True, sendrc = [], sent = [], sockfile = True, refused = None\<rparr>)))
     = Returns (JInt 3)"
proof -
  let ?err = "[(''class'', JStr ''DeviceNotFound''), (''desc'', JStr ''failed'')]"
  let ?resp = "[(''error'', JObj ?err)]"
  let ?resp2 = "[(''return'', JInt 3)]"
  let ?st = "\<lparr>events = [], inbox = [Line (Json ?resp), Line (Json ?resp2)],
       blocking = True, sendrc = [], sent = [], sockfile = True, refused = None\<rparr>"
  let ?kw = "[(''id'', JStr ''net0'')]"
  have h: "sockfile ?st" "writable ?st"
      "inbox ?st = map (\<lambda>e. Line (Json e)) [] @ Line (Json ?resp) # [Line (Json ?resp2)]"
      "\<forall>e\<in>set []. has_key ''event'' e" "\<not> has_key ''event'' ?resp"
      "map_of ?resp ''error'' = Some (JObj ?err)"
      "map_of ?err ''desc'' = Some (JStr ''failed'')"
    by (simp_all add: writable_def has_key_def)
  note t = command_error_raises_desc [OF h, of "''device_del''" ?kw ?resp2 "[]" "JInt 3"
      "''query-status''" "[]"]
  have w: "writable (snd (command ''device_del'' ?kw ?st))"
    by (simp add: t [THEN conjunct2, THEN conjunct1] cmd_def cmd_obj_def sendall_def
                  json_read_Line has_key_def writable_def)
  have g: "[Line (Json ?resp2)] = Line (Json ?resp2) # []"
      "\<not> has_key ''event'' ?resp2" "\<not> has_key ''error'' ?resp2"
      "map_of ?resp2 ''return'' = Some (JInt 3)"
    by (simp_all add: has_key_def)
  show ?thesis
    using t [THEN conjunct1]
      t [THEN conjunct2, THEN conjunct2, THEN conjunct2, rule_format, OF w g]
    by (intro conjI)
qed

text \<open>
  Claim C7, as stated, fails: the handshake does not stop at the first line. A line
  that is an event is queued and the next one is read, so a first line without
  \<^verbatim>\<open>QMP\<close> does not make the handshake fail.
\<close>

theorem negotiate_event_first_counterexample:
  "negotiate_capabilities
     \<lparr>events = [],
      inbox = [Line (Json [(''event'', JStr ''RESUME'')]),
               Line (Json [(''QMP'', JObj [(''version'', JObj [])])]),
               Line (Json [(''return'', JObj [])])],
      blocking = True, sendrc = [], sent = [], sockfile = True, refused = None\<rparr>
   = (Returns [(''QMP'', JObj [(''version'', JObj [])])],
      \<lparr>events = [[(''event'', JStr ''RESUME'')]], inbox = [], blocking = True,
       sendrc = [], sent = [[(''execute'', JStr ''qmp_capabilities'')]],
       sockfile = True, refused = None\<rparr>)
   \<and> \<not> has_key ''QMP'' [(''event'', JStr ''RESUME'')]"
  by (simp add: negotiate_capabilities_def cmd_def cmd_obj_def sendall_def qmp_cmd_def
                json_read_Line has_key_def)

text \<open>
  Claim C7, amended. The handshake reads lines, queueing those that are events, up to
  the first line that is not one. It raises \<^verbatim>\<open>QMPConnectError\<close> (the spec's
  HandshakeError), writing nothing, when the stream ends there or that line has no
  \<^verbatim>\<open>QMP\<close>. Otherwise it writes the command \<^verbatim>\<open>qmp_capabilities\<close>, without
  arguments, and with the reply, the next line that is not an event, it returns the
  greeting when the reply holds \<^verbatim>\<open>return\<close> and raises \<^verbatim>\<open>QMPCapabilitiesError\<close> when
  it does not. \<^verbatim>\<open>connect\<close>, on a session not connected before as on any other, ends
  as the handshake does: the exception leaves it, and no greeting is returned.
\<close>

theorem negotiate_capabilities_handshake:
  assumes "\<forall>e\<in>set evs. has_key ''event'' e"
  shows "(inbox st = map (\<lambda>e. Line (Json e)) evs @ Eof # rest \<longrightarrow>
            (sockfile st \<longrightarrow>
               fst (negotiate_capabilities st) = Raises (QMPConnectError None)
             \<and> sent (snd (negotiate_capabilities st)) = sent st)
          \<and> (refused st = None \<longrightarrow>
               fst (connect True st) = Raises (QMPConnectError None)
             \<and> sent (snd (connect True st)) = sent st))
       \<and> (inbox st = map (\<lambda>e. Line (Json e)) evs @ Line (Json greeting) # rest \<longrightarrow>
          \<not> has_key ''event'' greeting \<longrightarrow> \<not> has_key ''QMP'' greeting \<longrightarrow>
            (sockfile st \<longrightarrow>
               fst (negotiate_capabilities st) = Raises (QMPConnectError None)
             \<and> sent (snd (negotiate_capabilities st)) = sent st)
          \<and> (refused st = None \<longrightarrow>
               fst (connect True st) = Raises (QMPConnectError None)
             \<and> sent (snd (connect True st)) = sent st))
       \<and> (inbox st = map (\<lambda>e. Line (Json e)) evs @ Line (Json greeting)
                       # map (\<lambda>e. Line (Json e)) later @ Line (Json resp) # rest \<longrightarrow>
          (\<forall>e\<in>set later. has_key ''event'' e) \<longrightarrow>
          \<not> has_key ''event'' greeting \<longrightarrow> has_key ''QMP'' greeting \<longrightarrow>
          \<not> has_key ''event'' resp \<longrightarrow> writable st \<longrightarrow>
            (sockfile st \<longrightarrow>
               fst (negotiate_capabilities st)
                 = (if has_key ''return'' resp then Returns greeting
                    else Raises QMPCapabilitiesError)
             \<and> sent (snd (negotiate_capabilities st))
                 = sent st @ [[(''execute'', JStr ''qmp_capabilities'')]]
             \<and> events (snd (negotiate_capabilities st)) = events st @ evs @ later)
          \<and> (refused st = None \<longrightarrow>
               fst (connect True st)
                 = (if has_key ''return'' resp then Returns (Some greeting)
                    else Raises QMPCapabilitiesError)
             \<and> sent (snd (connect True st))
                 = sent st @ [[(''execute'', JStr ''qmp_capabilities'')]]
             \<and> events (snd (connect True st)) = events st @ evs @ later))"
proof -
  let ?m = "qmp_cmd ''qmp_capabilities'' JNull JNull"
  let ?r1 = "map (\<lambda>e. Line (Json e)) later @ Line (Json resp) # rest"
  let ?res = "if has_key ''return'' resp then Returns greeting else Raises QMPCapabilitiesError"
  let ?cres = "if has_key ''return'' resp then Returns (Some greeting)
               else Raises QMPCapabilitiesError"
  have n1: "negotiate_capabilities s =
      (Raises (QMPConnectError None), s\<lparr>inbox := Eof # rest, events := events s @ evs\<rparr>)"
    if "sockfile s" "inbox s = map (\<lambda>e. Line (Json e)) evs @ Eof # rest" for s
  proof -
    have "json_read False s =
        (Returns None, s\<lparr>inbox := Eof # rest, events := events s @ evs\<rparr>)"
      using that assms by (intro json_read_events_then_eof)
    then show ?thesis by (simp add: negotiate_capabilities_def)
  qed
  have n2: "negotiate_capabilities s =
      (Raises (QMPConnectError None), s\<lparr>inbox := rest, events := events s @ evs\<rparr>)"
    if "sockfile s" "inbox s = map (\<lambda>e. Line (Json e)) evs @ Line (Json greeting) # rest"
      "\<not> has_key ''event'' greeting" "\<not> has_key ''QMP'' greeting" for s
  proof -
    have "json_read False s =
        (Returns (Some greeting), s\<lparr>inbox := rest, events := events s @ evs\<rparr>)"
      using that(1,2) assms that(3) by (intro json_read_events_then_response)
    then show ?thesis using that(4) by (simp add: negotiate_capabilities_def)
  qed
  have n3: "fst (negotiate_capabilities s) = ?res
      \<and> sent (snd (negotiate_capabilities s)) = sent s @ [[(''execute'', JStr ''qmp_capabilities'')]]
      \<and> events (snd (negotiate_capabilities s)) = events s @ evs @ later"
    if s: "sockfile s"
      and i: "inbox s = map (\<lambda>e. Line (Json e)) evs @ Line (Json greeting) # ?r1"
      and e2: "\<forall>e\<in>set later. has_key ''event'' e"
      and g: "\<not> has_key ''event'' greeting" "has_key ''QMP'' greeting"
      and r: "\<not> has_key ''event'' resp" and w: "writable s" for s
  proof -
    let ?s1 = "s\<lparr>inbox := ?r1, events := events s @ evs\<rparr>"
    let ?s2 = "(snd (sendall ?m ?s1))\<lparr>inbox := rest, events := events ?s1 @ later\<rparr>"
    have r0: "json_read False s = (Returns (Some greeting), ?s1)"
      using s i assms g(1) by (intro json_read_events_then_response)
    have w1: "writable ?s1" using w by (simp add: writable_def)
    have r1: "cmd_obj ?m ?s1 = (Returns (Some resp), ?s2)"
      using s w1 e2 r by (intro cmd_obj_exchange) simp_all
    have n: "negotiate_capabilities s = (?res, ?s2)"
      using g(2) by (simp add: negotiate_capabilities_def r0 cmd_def r1)
    show ?thesis
      using w1 by (simp add: n sendall_writable qmp_cmd_def)
  qed
  have c: "fst (connect True st) =
        (case fst (negotiate_capabilities (st\<lparr>sockfile := True\<rparr>)) of
           Returns g \<Rightarrow> Returns (Some g) | Raises x \<Rightarrow> Raises x | Blocks \<Rightarrow> Blocks)
      \<and> snd (connect True st) = snd (negotiate_capabilities (st\<lparr>sockfile := True\<rparr>))"
    if "refused st = None"
    using that by (simp add: connect_def split: prod.splits outcome.splits)
  show ?thesis
  proof (intro conjI impI)
    assume "inbox st = map (\<lambda>e. Line (Json e)) evs @ Eof # rest" "sockfile st"
    then show "fst (negotiate_capabilities st) = Raises (QMPConnectError None)"
      and "sent (snd (negotiate_capabilities st)) = sent st"
      using n1 [of st] by simp_all
  next
    assume "inbox st = map (\<lambda>e. Line (Json e)) evs @ Eof # rest" "refused st = None"
    then show "fst (connect True st) = Raises (QMPConnectError None)"
      and "sent (snd (connect True st)) = sent st"
      using n1 [of "st\<lparr>sockfile := True\<rparr>"] c by simp_all
  next
    assume "inbox st = map (\<lambda>e. Line (Json e)) evs @ Line (Json greeting) # rest"
      "\<not> has_key ''event'' greeting" "\<not> has_key ''QMP'' greeting" "sockfile st"
    then show "fst (negotiate_capabilities st) = Raises (QMPConnectError None)"
      and "sent (snd (negotiate_capabilities st)) = sent st"
      using n2 [of st] by simp_all
  next
    assume "inbox st = map (\<lambda>e. Line (Json e)) evs @ Line (Json greeting) # rest"
      "\<not> has_key ''event'' greeting" "\<not> has_key ''QMP'' greeting" "refused st = None"
    then show "fst (connect True st) = Raises (QMPConnectError None)"
      and "sent (snd (connect True st)) = sent st"
      using n2 [of "st\<lparr>sockfile := True\<rparr>"] c by simp_all
  next
    assume a: "inbox st = map (\<lambda>e. Line (Json e)) evs @ Line (Json greeting) # ?r1"
      "\<forall>e\<in>set later. has_key ''event'' e"
      "\<not> has_key ''event'' greeting" "has_key ''QMP'' greeting"
      "\<not> has_key ''event'' resp" "writable st"
    {
      assume "sockfile st"
      from n3 [OF this a]
      show "fst (negotiate_capabilities st) = ?res"
        and "sent (snd (negotiate_capabilities st))
              = sent st @ [[(''execute'', JStr ''qmp_capabilities'')]]"
        and "events (snd (negotiate_capabilities st)) = events st @ evs @ later"
        by simp_all
    }
    {
      assume f: "refused st = None"
      have "writable (st\<lparr>sockfile := True\<rparr>)" using a(6) by (simp add: writable_def)
      with n3 [of "st\<lparr>sockfile := True\<rparr>"] a
      have n: "fst (negotiate_capabilities (st\<lparr>sockfile := True\<rparr>)) = ?res"
          "sent (snd (negotiate_capabilities (st\<lparr>sockfile := True\<rparr>)))
             = sent st @ [[(''execute'', JStr ''qmp_capabilities'')]]"
          "events (snd (negotiate_capabilities (st\<lparr>sockfile := True\<rparr>)))
             = events st @ evs @ later"
        by simp_all
      show "fst (connect True st) = ?cres"
        and "sent (snd (connect True st))
              = sent st @ [[(''execute'', JStr ''qmp_capabilities'')]]"
        and "events (snd (connect True st)) = events st @ evs @ later"
        using c [OF f] n by simp_all
    }
  qed
qed

theorem negotiate_capabilities_handshake_witness:
  "fst (connect True
     \<lparr>events = [], inbox = [Line (Json [(''event'', JStr ''RESUME'')]), Eof],
      blocking = True, sendrc = [], sent = [], sockfile = False, refused = None\<rparr>)
     = Raises (QMPConnectError None)
   \<and> fst (connect True
     \<lparr>events = [],
      inbox = [Line (Json [(''event'', JStr ''RESUME'')]), Line (Json [(''hello'', JNull)])],
      blocking = True, sendrc = [], sent = [], sockfile = False, refused = None\<rparr>)
     = Raises (QMPConnectError None)
   \<and> fst (connect True
     \<lparr>events = [],
      inbox = [Line (Json [(''event'', JStr ''RESUME'')]), Line (Json [(''QMP'', JObj [])]),
               Line (Json [(''error'', JObj [(''class'', JStr ''CommandNotFound''),
                                             (''desc'', JStr ''no'')])])],
      blocking = True, sendrc = [], sent = [], sockfile = False, refused = None\<rparr>)
     = Raises QMPCapabilitiesError
   \<and> fst (negotiate_capabilities
     \<lparr>events = [],
      inbox = [Line (Json [(''event'', JStr ''RESUME'')]), Line (Json [(''QMP'', JObj [])]),
               Line (Json [(''return'', JObj [])])],
      blocking = True, sendrc = [], sent = [], sockfile = True, refused = None\<rparr>)
     = Returns [(''QMP'', JObj [])]"
proof -
  let ?ev = "[(''event'', JStr ''RESUME'')]"
  let ?g = "[(''QMP'', JObj [])]"
  let ?bad = "[(''hello'', JNull)]"
  let ?resp = "[(''error'', JObj [(''class'', JStr ''CommandNotFound''), (''desc'', JStr ''no'')])]"
  let ?ok = "[(''return'', JObj [])]"
  let ?a = "\<lparr>events = [], inbox = [Line (Json ?ev), Eof],
      blocking = True, sendrc = [], sent = [], sockfile = False, refused = None\<rparr>"
  let ?b = "\<lparr>events = [], inbox = [Line (Json ?ev), Line (Json ?bad)],
      blocking = True, sendrc = [], sent = [], sockfile = False, refused = None\<rparr>"
  let ?c = "\<lparr>events = [], inbox = [Line (Json ?ev), Line (Json ?g), Line (Json ?resp)],
      blocking = True, sendrc = [], sent = [], sockfile = False, refused = None\<rparr>"
  let ?d = "\<lparr>events = [], inbox = [Line (Json ?ev), Line (Json ?g), Line (Json ?ok)],
      blocking = True, sendrc = [], sent = [], sockfile = True, refused = None\<rparr>"
  have ev: "\<forall>e\<in>set [?ev]. has_key ''event'' e" by (simp add: has_key_def)
  have nil: "\<forall>e\<in>set ([] :: msg list). has_key ''event'' e" by simp
  have a: "inbox ?a = map (\<lambda>e. Line (Json e)) [?ev] @ Eof # []" "refused ?a = None"
    by simp_all
  have b: "inbox ?b = map (\<lambda>e. Line (Json e)) [?ev] @ Line (Json ?bad) # []"
      "\<not> has_key ''event'' ?bad" "\<not> has_key ''QMP'' ?bad" "refused ?b = None"
    by (simp_all add: has_key_def)
  have c: "inbox ?c = map (\<lambda>e. Line (Json e)) [?ev] @ Line (Json ?g)
                    # map (\<lambda>e. Line (Json e)) [] @ Line (Json ?resp) # []"
      "\<not> has_key ''event'' ?g" "has_key ''QMP'' ?g" "\<not> has_key ''event'' ?resp"
      "writable ?c" "\<not> has_key ''return'' ?resp" "refused ?c = None"
    by (simp_all add: has_key_def writable_def)
  have d: "inbox ?d = map (\<lambda>e. Line (Json e)) [?ev] @ Line (Json ?g)
                    # map (\<lambda>e. Line (Json e)) [] @ Line (Json ?ok) # []"
      "\<not> has_key ''event'' ?ok" "writable ?d" "has_key ''return'' ?ok" "sockfile ?d"
    by (simp_all add: has_key_def writable_def)
  have ra: "fst (connect True ?a) = Raises (QMPConnectError None)"
    using negotiate_capabilities_handshake [where st = ?a and evs = "[?ev]" and rest = "[]",
        OF ev, THEN conjunct1] a
    by blast
  have rb: "fst (connect True ?b) = Raises (QMPConnectError None)"
    using negotiate_capabilities_handshake [where st = ?b and evs = "[?ev]" and rest = "[]"
        and greeting = ?bad, OF ev, THEN conjunct2, THEN conjunct1] b
    by blast
  have rc: "fst (connect True ?c) = Raises QMPCapabilitiesError"
    using negotiate_capabilities_handshake [where st = ?c and evs = "[?ev]"
        and later = "[]" and greeting = ?g and resp = ?resp and rest = "[]",
        OF ev, THEN conjunct2, THEN conjunct2] c nil
    by auto
  have rd: "fst (negotiate_capabilities ?d) = Returns ?g"
    using negotiate_capabilities_handshake [where st = ?d and evs = "[?ev]"
        and later = "[]" and greeting = ?g and resp = ?ok and rest = "[]",
        OF ev, THEN conjunct2, THEN conjunct2] c(2,3) d nil
    by auto
  show ?thesis by (intro conjI ra rb rc rd)
qed

subsection \<open>Taking events from the queue\<close>

lemma read_pending_nothing:
  "sockfile st \<Longrightarrow> inbox st = [] \<or> (\<exists>r. inbox st = Gap # r) \<Longrightarrow>
   read_pending st = (Returns (), st\<lparr>inbox := tl (inbox st), blocking := True\<rparr>)"
  by (auto simp: read_pending_def json_read_Nil json_read_Gap_nonblocking)

text \<open>
  Claim C2, as stated, fails: a response read while waiting and the end of the stream
  both end in \<^verbatim>\<open>IndexError\<close>, the one as the other, where the claim has a
  ProtocolViolation and a ConnectionClosed. (\<^verbatim>\<open>get_events\<close> raises \<^verbatim>\<open>QMPConnectError\<close>
  at the end of the stream.)
\<close>

theorem pull_event_wait_counterexample:
  "fst (pull_event True
     \<lparr>events = [], inbox = [Gap, Line (Json [(''return'', JObj [])])], blocking = True,
      sendrc = [], sent = [], sockfile = True, refused = None\<rparr>)
     = Raises IndexError
   \<and> fst (pull_event True
     \<lparr>events = [], inbox = [Gap, Eof], blocking = True,
      sendrc = [], sent = [], sockfile = True, refused = None\<rparr>)
     = Raises IndexError
   \<and> fst (get_events True
     \<lparr>events = [], inbox = [Gap, Eof], blocking = True,
      sendrc = [], sent = [], sockfile = True, refused = None\<rparr>)
     = Raises (QMPConnectError (Some ''Error while reading from socket''))"
  by (simp add: pull_event_def get_events_def read_pending_def pop_first_def
                json_read_Gap_nonblocking json_read_Line json_read_Eof has_key_def)

text \<open>
  Claim C2, amended. With an empty queue and nothing pending, \<^verbatim>\<open>pull_event(wait=True)\<close>
  blocks until a line arrives, and when nothing ever arrives it does not return. When
  the line is an event it returns the event and leaves the queue empty. When the line
  is a response, the response is dropped: it is taken from the stream and not queued,
  and the call returns no event. (What the call does at the end of the stream is left
  out.)
\<close>

theorem pull_event_waits_for_event:
  assumes "sockfile st" and "events st = []"
  shows "(inbox st = Gap # replicate k Gap @ Line (Json ev) # rest \<longrightarrow>
            has_key ''event'' ev \<longrightarrow>
            pull_event True st = (Returns ev, st\<lparr>inbox := rest, blocking := True\<rparr>))
       \<and> (inbox st = replicate k Gap \<longrightarrow> fst (pull_event True st) = Blocks)
       \<and> (inbox st = Gap # replicate k Gap @ Line (Json resp) # rest \<longrightarrow>
            \<not> has_key ''event'' resp \<longrightarrow>
            snd (pull_event True st) = st\<lparr>inbox := rest, blocking := True\<rparr>
          \<and> (\<forall>e. fst (pull_event True st) \<noteq> Returns e))"
proof (intro conjI impI)
  assume i: "inbox st = Gap # replicate k Gap @ Line (Json resp) # rest"
    and e: "\<not> has_key ''event'' resp"
  let ?st1 = "st\<lparr>inbox := replicate k Gap @ Line (Json resp) # rest, blocking := True\<rparr>"
  let ?st2 = "st\<lparr>inbox := Line (Json resp) # rest, blocking := True\<rparr>"
  have p: "read_pending st = (Returns (), ?st1)"
    using read_pending_nothing [of st] assms(1) i by simp
  have "json_read True ?st1 = json_read True (?st1\<lparr>inbox := Line (Json resp) # rest\<rparr>)"
    using assms(1) by (intro json_read_waits [where k = k]) simp_all
  also have "\<dots> = json_read True ?st2"
    by (rule arg_cong [where f = "json_read True"]) simp
  also have "\<dots> = (Returns (Some resp), ?st2\<lparr>inbox := rest\<rparr>)"
    using assms(1) e by (simp add: json_read_Line)
  finally have r: "json_read True ?st1 =
      (Returns (Some resp), st\<lparr>inbox := rest, blocking := True\<rparr>)"
    by simp
  have d: "pull_event True st = (Raises IndexError, st\<lparr>inbox := rest, blocking := True\<rparr>)"
    using assms(2) by (simp add: pull_event_def p r pop_first_def)
  show "snd (pull_event True st) = st\<lparr>inbox := rest, blocking := True\<rparr>"
    and "\<forall>e. fst (pull_event True st) \<noteq> Returns e"
    by (simp_all add: d)
next
  assume i: "inbox st = Gap # replicate k Gap @ Line (Json ev) # rest"
    and e: "has_key ''event'' ev"
  let ?st1 = "st\<lparr>inbox := replicate k Gap @ Line (Json ev) # rest, blocking := True\<rparr>"
  let ?st2 = "st\<lparr>inbox := Line (Json ev) # rest, blocking := True\<rparr>"
  have p: "read_pending st = (Returns (), ?st1)"
    using read_pending_nothing [of st] assms(1) i by simp
  have "json_read True ?st1 = json_read True (?st1\<lparr>inbox := Line (Json ev) # rest\<rparr>)"
    using assms(1) by (intro json_read_waits [where k = k]) simp_all
  also have "\<dots> = json_read True ?st2"
    by (rule arg_cong [where f = "json_read True"]) simp
  also have "\<dots> = (Returns (Some ev), ?st2\<lparr>inbox := rest, events := events ?st2 @ [ev]\<rparr>)"
    using assms(1) e by (simp add: json_read_Line)
  finally have r: "json_read True ?st1 =
      (Returns (Some ev), st\<lparr>inbox := rest, blocking := True, events := [ev]\<rparr>)"
    using assms(2) by simp
  have "st\<lparr>inbox := rest, blocking := True, events := []\<rparr> = st\<lparr>inbox := rest, blocking := True\<rparr>"
    using assms(2) by simp
  then show "pull_event True st = (Returns ev, st\<lparr>inbox := rest, blocking := True\<rparr>)"
    using assms(2) by (simp add: pull_event_def p r pop_first_def)
next
  assume i: "inbox st = replicate k Gap"
  let ?st1 = "st\<lparr>inbox := tl (replicate k Gap), blocking := True\<rparr>"
  have p: "read_pending st = (Returns (), ?st1)"
    using read_pending_nothing [of st] assms(1) i by (cases k) simp_all
  have t: "tl (replicate k Gap) = replicate (k - 1) Gap @ []"
    by (cases k) simp_all
  have "json_read True ?st1 = json_read True (?st1\<lparr>inbox := []\<rparr>)"
    using assms(1) t by (intro json_read_waits [where k = "k - 1"]) simp_all
  also have "\<dots> = (Blocks, ?st1\<lparr>inbox := []\<rparr>)"
    using assms(1) by (simp add: json_read_Nil)
  finally show "fst (pull_event True st) = Blocks"
    using assms(2) by (simp add: pull_event_def p)
qed

theorem pull_event_waits_for_event_witness:
  "pull_event True
     \<lparr>events = [], inbox = [Gap, Gap, Gap, Line (Json [(''event'', JStr ''STOP'')])],
      blocking = True, sendrc = [], sent = [], sockfile = True, refused = None\<rparr>
   = (Returns [(''event'', JStr ''STOP'')],
      \<lparr>events = [], inbox = [], blocking = True, sendrc = [], sent = [],
       sockfile = True, refused = None\<rparr>)
   \<and> fst (pull_event True
     \<lparr>events = [], inbox = [Gap, Gap], blocking = True, sendrc = [], sent = [],
      sockfile = True, refused = None\<rparr>) = Blocks
   \<and> snd (pull_event True
     \<lparr>events = [], inbox = [Gap, Line (Json [(''return'', JObj [])]), Eof],
      blocking = True, sendrc = [], sent = [], sockfile = True, refused = None\<rparr>)
   = \<lparr>events = [], inbox = [Eof], blocking = True, sendrc = [], sent = [],
      sockfile = True, refused = None\<rparr>"
proof -
  let ?ev = "[(''event'', JStr ''STOP'')]"
  let ?a = "\<lparr>events = [], inbox = [Gap, Gap, Gap, Line (Json ?ev)],
      blocking = True, sendrc = [], sent = [], sockfile = True, refused = None\<rparr>"
  let ?b = "\<lparr>events = [], inbox = [Gap, Gap], blocking = True, sendrc = [], sent = [],
      sockfile = True, refused = None\<rparr>"
  have a: "sockfile ?a" "events ?a = []" and b: "sockfile ?b" "events ?b = []" by simp_all
  have ia: "inbox ?a = Gap # replicate 2 Gap @ Line (Json ?ev) # []"
    by (simp add: numeral_2_eq_2)
  have ib: "inbox ?b = replicate 2 Gap" by (simp add: numeral_2_eq_2)
  have e: "has_key ''event'' ?ev" by (simp add: has_key_def)
  have ra: "pull_event True ?a = (Returns ?ev, ?a\<lparr>inbox := [], blocking := True\<rparr>)"
    by (rule pull_event_waits_for_event [OF a, THEN conjunct1, rule_format, OF ia e])
  have rb: "fst (pull_event True ?b) = Blocks"
    by (rule pull_event_waits_for_event [OF b, THEN conjunct2, THEN conjunct1,
          rule_format, OF ib])
  let ?resp = "[(''return'', JObj [])]"
  let ?c = "\<lparr>events = [], inbox = [Gap, Line (Json ?resp), Eof],
      blocking = True, sendrc = [], sent = [], sockfile = True, refused = None\<rparr>"
  have c: "sockfile ?c" "events ?c = []" by simp_all
  have ic: "inbox ?c = Gap # replicate 0 Gap @ Line (Json ?resp) # [Eof]" by simp
  have nc: "\<not> has_key ''event'' ?resp" by (simp add: has_key_def)
  have rc: "snd (pull_event True ?c) = ?c\<lparr>inbox := [Eof], blocking := True\<rparr>"
    using pull_event_waits_for_event [OF c, where k = 0 and resp = ?resp
        and rest = "[Eof]", THEN conjunct2, THEN conjunct2] ic nc
    by blast
  from ra rb rc show ?thesis by simp
qed

text \<open>
  Claim C4. With an empty queue and nothing pending, \<^verbatim>\<open>pull_event(wait=False)\<close> reads
  once without blocking and then takes \<^verbatim>\<open>self.__events[0]\<close> of the empty list: it
  raises \<^verbatim>\<open>IndexError\<close> where the claim has it return the outcome "no event".
  \<^verbatim>\<open>get_events\<close>, which begins with the same lines, returns the empty list there.
\<close>

theorem pull_event_empty_raises:
  "pull_event False
     \<lparr>events = [], inbox = [], blocking = True, sendrc = [], sent = [],
      sockfile = True, refused = None\<rparr>
   = (Raises IndexError,
      \<lparr>events = [], inbox = [], blocking = True, sendrc = [], sent = [],
       sockfile = True, refused = None\<rparr>)
   \<and> get_events False
     \<lparr>events = [], inbox = [], blocking = True, sendrc = [], sent = [],
      sockfile = True, refused = None\<rparr>
   = (Returns [],
      \<lparr>events = [], inbox = [], blocking = True, sendrc = [], sent = [],
       sockfile = True, refused = None\<rparr>)"
  by (simp add: pull_event_def get_events_def read_pending_def pop_first_def json_read_Nil)

subsection \<open>The text of a document, written and read back\<close>

lemma digit_char_all:
  fixes d :: nat
  assumes "d < 10"
  shows "is_digit (digit_char d) \<and> digit_val (digit_char d) = d
       \<and> ((digit_char d = CHR ''0'') = (d = 0))"
proof -
  from assms consider "d = 0" | "d = 1" | "d = 2" | "d = 3" | "d = 4" | "d = 5" | "d = 6"
    | "d = 7" | "d = 8" | "d = 9"
    by atomize_elim arith
  then show ?thesis
    by cases (simp_all add: is_digit_def digit_val_def digit_char_def)
qed

lemma digit_char:
  fixes d :: nat
  assumes "d < 10"
  shows "is_digit (digit_char d)" and "digit_val (digit_char d) = d"
    and "(digit_char d = CHR ''0'') = (d = 0)"
  using digit_char_all [OF assms] by simp_all

lemma str_nat_digits: "list_all is_digit (str_nat n)"
proof (induction n rule: str_nat.induct)
  case (1 n)
  then show ?case
    by (subst str_nat.simps) (auto simp: digit_char)
qed

lemma str_nat_not_Nil: "str_nat n \<noteq> []"
  by (subst str_nat.simps) simp

lemma str_nat_hd: "hd (str_nat n) = CHR ''0'' \<longleftrightarrow> n = 0"
proof (induction n rule: str_nat.induct)
  case (1 n)
  show ?case
  proof (cases "n < 10")
    case True
    then show ?thesis by (subst str_nat.simps) (simp add: digit_char)
  next
    case False
    then have "hd (str_nat n) = hd (str_nat (n div 10))"
      by (subst str_nat.simps) (simp add: str_nat_not_Nil)
    with False 1 show ?thesis by simp
  qed
qed

lemma foldl_digits_snoc:
  "foldl (\<lambda>a d. 10 * a + digit_val d) a (xs @ [d])
     = 10 * foldl (\<lambda>a d. 10 * a + digit_val d) a xs + digit_val d"
  by simp

lemma str_nat_value: "foldl (\<lambda>a d. 10 * a + digit_val d) 0 (str_nat n) = n"
proof (induction n rule: str_nat.induct)
  case (1 n)
  show ?case
  proof (cases "n < 10")
    case True
    then show ?thesis by (subst str_nat.simps) (simp add: digit_char)
  next
    case False
    with 1 show ?thesis
      by (subst str_nat.simps) (simp add: digit_char)
  qed
qed

lemma takeWhile_digits:
  "list_all is_digit xs \<Longrightarrow> no_digit_ahead r \<Longrightarrow>
   takeWhile is_digit (xs @ r) = xs \<and> dropWhile is_digit (xs @ r) = r"
  by (induction xs) (auto simp: no_digit_ahead_def split: list.splits)

lemma parse_nat_str_nat:
  assumes "length (str_nat n) \<le> max_str_digits" and "no_digit_ahead r"
  shows "parse_nat (str_nat n @ r) = Some (n, r)"
proof -
  obtain c cs where s: "str_nat n = c # cs"
    using str_nat_not_Nil [of n] by (cases "str_nat n") auto
  have d: "is_digit c" using str_nat_digits [of n] s by simp
  have z: "c = CHR ''0'' \<longleftrightarrow> n = 0" using str_nat_hd [of n] s by simp
  show ?thesis
  proof (cases "n = 0")
    case True
    then have "str_nat n = ''0''" by (subst str_nat.simps) (simp add: digit_char_def)
    with True show ?thesis by (simp add: parse_nat_def)
  next
    case False
    have t: "takeWhile is_digit (str_nat n @ r) = str_nat n"
        "dropWhile is_digit (str_nat n @ r) = r"
      using takeWhile_digits [OF str_nat_digits assms(2)] by simp_all
    have "parse_nat (c # cs @ r) = Some (n, r)"
      using False z d t assms(1) str_nat_value [of n]
      unfolding parse_nat_def s by (simp add: Let_def)
    then show ?thesis by (simp add: s)
  qed
qed

lemma str_int_neg: "i < 0 \<Longrightarrow> str_int i = CHR ''-'' # str_nat (nat (- i))"
  by (simp add: str_int_def)

lemma parse_int_str_int:
  assumes "length (str_nat (nat \<bar>i\<bar>)) \<le> max_str_digits" and "no_digit_ahead r"
  shows "parse_int (str_int i @ r) = Some (i, r)"
proof (cases "i < 0")
  case True
  then have "nat \<bar>i\<bar> = nat (- i)" by simp
  with assms True show ?thesis
    by (simp add: parse_int_def str_int_def parse_nat_str_nat)
next
  case False
  then have a: "nat \<bar>i\<bar> = nat i" by simp
  obtain c cs where s: "str_nat (nat i) = c # cs"
    using str_nat_not_Nil [of "nat i"] by (cases "str_nat (nat i)") auto
  have "is_digit c" using str_nat_digits [of "nat i"] s by simp
  then have "c \<noteq> CHR ''-''" by (auto simp: is_digit_def)
  then have "parse_int (str_nat (nat i) @ r)
      = map_option (\<lambda>(n, t). (int n, t)) (parse_nat (str_nat (nat i) @ r))"
    by (simp add: parse_int_def s)
  with assms a False show ?thesis
    by (simp add: str_int_def parse_nat_str_nat)
qed


lemma hex_char_all:
  fixes k :: nat
  assumes "k < 16"
  shows "hex_val (hex_char k) = Some k \<and> (of_char (hex_char k) :: nat) < 128"
proof -
  from assms consider "k = 0" | "k = 1" | "k = 2" | "k = 3" | "k = 4" | "k = 5" | "k = 6"
    | "k = 7" | "k = 8" | "k = 9" | "k = 10" | "k = 11" | "k = 12" | "k = 13" | "k = 14"
    | "k = 15"
    by atomize_elim arith
  then show ?thesis
    by cases (simp_all add: hex_char_def hex_val_def is_digit_def digit_val_def)
qed

lemma hex4_escape:
  fixes n :: nat
  assumes "n < 256"
  shows "hex4 [CHR ''0'', CHR ''0'', hex_char (n div 16), hex_char (n mod 16)] = Some n"
proof -
  have "n div 16 < 16" "n mod 16 < 16" using assms by simp_all
  then have "hex_val (hex_char (n div 16)) = Some (n div 16)"
      "hex_val (hex_char (n mod 16)) = Some (n mod 16)"
    using hex_char_all by simp_all
  moreover have "hex_val (CHR ''0'') = Some 0"
    by (simp add: hex_val_def is_digit_def digit_val_def)
  ultimately show ?thesis by (simp add: hex4_def)
qed

lemma scanstring_plain:
  "c \<noteq> CHR 0x22 \<Longrightarrow> c \<noteq> CHR 0x5C \<Longrightarrow> \<not> (of_char c :: nat) < 0x20 \<Longrightarrow>
   scanstring (c # t) = map_option (\<lambda>(s, u). (c # s, u)) (scanstring t)"
  by simp

lemma scanstring_short:
  "unescape e = Some ch \<Longrightarrow> e \<noteq> CHR ''u'' \<Longrightarrow>
   scanstring (CHR 0x5C # e # t) = map_option (\<lambda>(s, u). (ch # s, u)) (scanstring t)"
  by simp

lemma scanstring_u:
  "hex4 [a, b, x, y] = Some n \<Longrightarrow> n < 256 \<Longrightarrow>
   scanstring (CHR 0x5C # CHR ''u'' # a # b # x # y # t)
     = map_option (\<lambda>(s, u). (char_of n # s, u)) (scanstring t)"
  by simp

lemma escape_cases:
  obtains (short) e where "escape c = [CHR 0x5C, e]" and "unescape e = Some c"
      and "e \<noteq> CHR ''u''" and "(of_char e :: nat) < 128"
    | (plain) "escape c = [c]" and "c \<noteq> CHR 0x22" and "c \<noteq> CHR 0x5C"
      and "0x20 \<le> (of_char c :: nat)" and "(of_char c :: nat) \<le> 0x7E"
    | (hex) "escape c = [CHR 0x5C, CHR ''u'', CHR ''0'', CHR ''0'',
        hex_char (of_char c div 16), hex_char (of_char c mod 16)]"
proof -
  let ?n = "of_char c :: nat"
  show ?thesis
  proof (cases "c \<in> set [CHR 0x22, CHR 0x5C, CHR 0x0A, CHR 0x0D, CHR 0x09, CHR 0x08, CHR 0x0C]")
    case True
    then consider "c = CHR 0x22" | "c = CHR 0x5C" | "c = CHR 0x0A" | "c = CHR 0x0D"
      | "c = CHR 0x09" | "c = CHR 0x08" | "c = CHR 0x0C"
      by auto
    then show ?thesis
    proof cases
      case 1
      then show ?thesis by (intro short [of "CHR 0x22"]) (simp_all add: escape_def unescape_def)
    next
      case 2
      then show ?thesis by (intro short [of "CHR 0x5C"]) (simp_all add: escape_def unescape_def)
    next
      case 3
      then show ?thesis by (intro short [of "CHR ''n''"]) (simp_all add: escape_def unescape_def)
    next
      case 4
      then show ?thesis by (intro short [of "CHR ''r''"]) (simp_all add: escape_def unescape_def)
    next
      case 5
      then show ?thesis by (intro short [of "CHR ''t''"]) (simp_all add: escape_def unescape_def)
    next
      case 6
      then show ?thesis by (intro short [of "CHR ''b''"]) (simp_all add: escape_def unescape_def)
    next
      case 7
      then show ?thesis by (intro short [of "CHR ''f''"]) (simp_all add: escape_def unescape_def)
    qed
  next
    case False
    then have ne: "c \<noteq> CHR 0x22" "c \<noteq> CHR 0x5C" "c \<noteq> CHR 0x0A" "c \<noteq> CHR 0x0D"
        "c \<noteq> CHR 0x09" "c \<noteq> CHR 0x08" "c \<noteq> CHR 0x0C"
      by auto
    show ?thesis
    proof (cases "0x20 \<le> ?n \<and> ?n \<le> 0x7E")
      case True
      with ne have "escape c = [c]" by (simp add: escape_def)
      with ne True show ?thesis by (intro plain) simp_all
    next
      case False
      with ne have "escape c = [CHR 0x5C, CHR ''u'', CHR ''0'', CHR ''0'',
          hex_char (?n div 16), hex_char (?n mod 16)]"
        by (simp add: escape_def)
      then show ?thesis by (rule hex)
    qed
  qed
qed

lemma scanstring_escape:
  "scanstring (escape c @ t) = map_option (\<lambda>(s, u). (c # s, u)) (scanstring t)"
proof (cases c rule: escape_cases)
  case (short e)
  then show ?thesis by simp
next
  case plain
  then show ?thesis by simp
next
  case hex
  have "hex4 [CHR ''0'', CHR ''0'', hex_char (of_char c div 16), hex_char (of_char c mod 16)]
          = Some (of_char c)"
    by (rule hex4_escape) simp
  then show ?thesis by (simp add: hex)
qed

lemma scanstring_encoded:
  "scanstring (concat (map escape s) @ CHR 0x22 # r) = Some (s, r)"
  by (induction s) (simp_all add: scanstring_escape)

lemma escape_ascii: "list_all (\<lambda>x. (of_char x :: nat) < 128) (escape c)"
proof (cases c rule: escape_cases)
  case (short e)
  then show ?thesis by simp
next
  case plain
  then show ?thesis by simp
next
  case hex
  have "(of_char c :: nat) div 16 < 16"
    by (rule less_mult_imp_div_less) simp
  moreover have "(of_char c :: nat) mod 16 < 16" by simp
  ultimately have "(of_char (hex_char (of_char c div 16)) :: nat) < 128"
      "(of_char (hex_char (of_char c mod 16)) :: nat) < 128"
    using hex_char_all by simp_all
  then show ?thesis by (simp add: hex)
qed

lemma encode_str_ascii: "list_all (\<lambda>x. (of_char x :: nat) < 128) (encode_str s)"
proof -
  have "list_all (\<lambda>x. (of_char x :: nat) < 128) (concat (map escape s))"
    by (induction s) (simp_all add: escape_ascii)
  then show ?thesis by (simp add: encode_str_def)
qed

lemma str_nat_ascii: "list_all (\<lambda>x. (of_char x :: nat) < 128) (str_nat n)"
proof -
  have "is_digit x \<Longrightarrow> (of_char x :: nat) < 128" for x
    by (auto simp: is_digit_def)
  then show ?thesis
    using str_nat_digits [of n] by (auto simp: list_all_iff)
qed

lemma str_int_ascii: "list_all (\<lambda>x. (of_char x :: nat) < 128) (str_int i)"
  by (simp add: str_int_def str_nat_ascii)

lemma encode_ascii:
  "list_all (\<lambda>x. (of_char x :: nat) < 128) (encode v)"
  "list_all (\<lambda>x. (of_char x :: nat) < 128) (encode_items vs)"
  "list_all (\<lambda>x. (of_char x :: nat) < 128) (encode_pairs ps)"
  by (induction v and vs and ps rule: encode_encode_items_encode_pairs.induct)
     (simp_all add: str_int_ascii encode_str_ascii)


lemma dict_set_fresh:
  "map_of d k = None \<Longrightarrow> dict_set d (k, v) = d @ [(k, v)]"
  by (simp add: dict_set_def)

lemma foldl_dict_set_distinct:
  "distinct (map fst (d @ ps)) \<Longrightarrow> foldl dict_set d ps = d @ ps"
proof (induction ps arbitrary: d)
  case Nil
  then show ?case by simp
next
  case (Cons p ps)
  obtain k v where p: "p = (k, v)" by (cases p)
  from Cons.prems have "k \<notin> fst ` set d" by (auto simp: p)
  then have "map_of d k = None" by (simp add: map_of_eq_None_iff)
  then have "dict_set d p = d @ [p]" by (simp add: p dict_set_fresh)
  moreover have "foldl dict_set (d @ [p]) ps = (d @ [p]) @ ps"
    using Cons.prems by (intro Cons.IH) simp
  ultimately show ?case by simp
qed

lemma dict_of_distinct: "distinct (map fst ps) \<Longrightarrow> dict_of ps = ps"
  using foldl_dict_set_distinct [of "[]" ps] by (simp add: dict_of_def)

lemma skip_ws_simps:
  "\<not> is_ws c \<Longrightarrow> skip_ws (c # s) = c # s"
  "skip_ws (CHR '' '' # s) = skip_ws s"
  "skip_ws [] = []"
  by (simp_all add: skip_ws_def is_ws_def)

lemma str_int_hd:
  "\<exists>c t. str_int i = c # t \<and> c \<in> set ''-0123456789''"
proof -
  obtain c cs where s: "str_nat (nat \<bar>i\<bar>) = c # cs"
    using str_nat_not_Nil [of "nat \<bar>i\<bar>"] by (cases "str_nat (nat \<bar>i\<bar>)") auto
  have "is_digit c" using str_nat_digits [of "nat \<bar>i\<bar>"] s by simp
  then have c: "c \<in> set ''-0123456789''" by (simp add: is_digit_def)
  show ?thesis
  proof (cases "i < 0")
    case True
    then show ?thesis by (simp add: str_int_def)
  next
    case False
    then have "nat \<bar>i\<bar> = nat i" by simp
    with False s c show ?thesis by (simp add: str_int_def)
  qed
qed

lemma encode_hd:
  "\<exists>c t. encode v = c # t \<and> c \<in> set (CHR 0x22 # ''ntf-0123456789[{'')"
proof (cases v)
  case (JInt i)
  from str_int_hd [of i] obtain c t where "str_int i = c # t" "c \<in> set ''-0123456789''"
    by blast
  with JInt show ?thesis by auto
next
  case (JBool b)
  then show ?thesis by (cases b) simp_all
qed (simp_all add: encode_str_def)

lemma encode_not_Nil: "encode v \<noteq> []"
  using encode_hd [of v] by auto

lemma start_facts:
  assumes "c \<in> set (CHR 0x22 # ''ntf-0123456789[{'')"
  shows "\<not> is_ws c" and "c \<noteq> CHR '']''" and "c \<noteq> CHR ''}''" and "c \<noteq> CHR '',''"
  using assms by (auto simp: is_ws_def)

lemma skip_ws_encode: "skip_ws (encode v @ r) = encode v @ r"
proof -
  from encode_hd [of v] obtain c t where e: "encode v = c # t"
      "c \<in> set (CHR 0x22 # ''ntf-0123456789[{'')"
    by blast
  then show ?thesis by (simp add: skip_ws_simps(1) start_facts(1))
qed

lemma encode_items_hd:
  assumes "vs \<noteq> []"
  shows "\<exists>c t. encode_items vs = c # t \<and> c \<in> set (CHR 0x22 # ''ntf-0123456789[{'')"
proof -
  from assms obtain x xs where vs: "vs = x # xs" by (cases vs) auto
  from encode_hd [of x] obtain c t where e: "encode x = c # t"
      "c \<in> set (CHR 0x22 # ''ntf-0123456789[{'')"
    by blast
  show ?thesis
  proof (cases xs)
    case Nil
    with vs e show ?thesis by simp
  next
    case (Cons y ys)
    with vs e show ?thesis by simp
  qed
qed

lemma encode_pairs_hd:
  assumes "ps \<noteq> []"
  shows "encode_pairs ps = CHR 0x22 # tl (encode_pairs ps)"
proof -
  from assms obtain k v qs where ps: "ps = (k, v) # qs" by (cases ps) auto
  show ?thesis
    by (cases qs) (simp_all add: ps encode_str_def)
qed


lemma parse_value_atoms:
  "parse_value (Suc n) (''null'' @ r) = Some (JNull, r)"
  "parse_value (Suc n) (''true'' @ r) = Some (JBool True, r)"
  "parse_value (Suc n) (''false'' @ r) = Some (JBool False, r)"
  by simp_all

lemma parse_value_str:
  "parse_value (Suc n) (encode_str s @ r) = Some (JStr s, r)"
  by (simp add: encode_str_def scanstring_encoded)

lemma parse_value_int:
  assumes "int_fits i" and "no_digit_ahead r"
  shows "parse_value (Suc n) (str_int i @ r) = Some (JInt i, r)"
proof -
  from str_int_hd [of i] obtain c t where s: "str_int i = c # t"
      and c: "c \<in> set ''-0123456789''"
    by blast
  from c have ne: "c \<noteq> CHR 0x22" "c \<noteq> CHR ''{''" "c \<noteq> CHR ''[''" "c \<noteq> CHR ''n''"
      "c \<noteq> CHR ''t''" "c \<noteq> CHR ''f''"
    by auto
  have "parse_value (Suc n) (c # t @ r)
      = map_option (\<lambda>(i, t). (JInt i, t)) (parse_int (c # t @ r))"
    using ne by simp
  moreover have "parse_int (str_int i @ r) = Some (i, r)"
    using assms by (intro parse_int_str_int) (simp add: int_fits_def)
  ultimately show ?thesis by (simp add: s)
qed

lemma parse_value_empty:
  "parse_value (Suc n) (''[]'' @ r) = Some (JList [], r)"
  "parse_value (Suc n) (''{}'' @ r) = Some (JObj [], r)"
  by (simp_all add: skip_ws_simps is_ws_def)

lemma no_digit_ahead_simps:
  "no_digit_ahead (CHR '']'' # r)" "no_digit_ahead (CHR ''}'' # r)"
  "no_digit_ahead (CHR '','' # r)" "no_digit_ahead []"
  by (simp_all add: no_digit_ahead_def is_digit_def)

lemma closers_not_ws:
  "\<not> is_ws (CHR '']'')" "\<not> is_ws (CHR ''}'')" "\<not> is_ws (CHR '','')"
  "\<not> is_ws (CHR '':'')" "\<not> is_ws (CHR 0x22)"
  by (simp_all add: is_ws_def)

lemma parse_encode:
  "length (encode v) \<le> n \<Longrightarrow> distinct_keys v \<Longrightarrow> list_all int_fits (ints_of v) \<Longrightarrow>
   no_digit_ahead r \<Longrightarrow> parse_value n (encode v @ r) = Some (v, r)"
  "vs \<noteq> [] \<Longrightarrow> length (encode_items vs) < n \<Longrightarrow> distinct_keys_items vs \<Longrightarrow>
   list_all int_fits (ints_of_items vs) \<Longrightarrow>
   parse_items n (encode_items vs @ CHR '']'' # r) = Some (vs, r)"
  "ps \<noteq> [] \<Longrightarrow> length (encode_pairs ps) < n \<Longrightarrow> distinct_keys_pairs ps \<Longrightarrow>
   list_all int_fits (ints_of_pairs ps) \<Longrightarrow>
   parse_pairs n (tl (encode_pairs ps) @ CHR ''}'' # r) = Some (ps, r)"
proof (induction v and vs and ps arbitrary: n r and n r and n r
       rule: encode_encode_items_encode_pairs.induct)
  case 1
  then obtain m where "n = Suc m" by (cases n) auto
  then show ?case using parse_value_atoms(1) by simp
next
  case (2 b)
  then obtain m where "n = Suc m" by (cases n; cases b) auto
  then show ?case using parse_value_atoms(2,3) by (cases b) simp_all
next
  case (3 i)
  then obtain m where "n = Suc m" using str_int_hd [of i] by (cases n) auto
  with 3 show ?case using parse_value_int [of i r m] by simp
next
  case (4 s)
  then obtain m where "n = Suc m" by (cases n) (auto simp: encode_str_def)
  then show ?case using parse_value_str [of m s r] by simp
next
  case (5 xs)
  from "5.prems"(1) obtain m where n: "n = Suc m" by (cases n) auto
  show ?case
  proof (cases "xs = []")
    case True
    then show ?thesis using parse_value_empty(1) [of m r] by (simp add: n)
  next
    case False
    from encode_items_hd [OF False] obtain c t where e: "encode_items xs = c # t"
        and c: "c \<in> set (CHR 0x22 # ''ntf-0123456789[{'')"
      by blast
    have "parse_items m (encode_items xs @ CHR '']'' # r) = Some (xs, r)"
      using False "5.prems" by (intro "5.IH") (simp_all add: n)
    then have "parse_items m (c # t @ CHR '']'' # r) = Some (xs, r)" by (simp add: e)
    moreover have "skip_ws (c # t @ CHR '']'' # r) = c # t @ CHR '']'' # r"
      using start_facts(1) [OF c] by (simp add: skip_ws_simps)
    ultimately show ?thesis
      using start_facts(2) [OF c] by (simp add: n e)
  qed
next
  case (6 kvs)
  from "6.prems"(1) obtain m where n: "n = Suc m" by (cases n) auto
  show ?case
  proof (cases "kvs = []")
    case True
    then show ?thesis using parse_value_empty(2) [of m r] by (simp add: n)
  next
    case False
    let ?body = "tl (encode_pairs kvs)"
    have e: "encode_pairs kvs = CHR 0x22 # ?body" by (rule encode_pairs_hd [OF False])
    have "parse_pairs m (?body @ CHR ''}'' # r) = Some (kvs, r)"
      using False "6.prems" by (intro "6.IH") (simp_all add: n)
    moreover have "skip_ws (CHR 0x22 # ?body @ CHR ''}'' # r) = CHR 0x22 # ?body @ CHR ''}'' # r"
      by (simp add: skip_ws_simps closers_not_ws)
    moreover have "dict_of kvs = kvs" using "6.prems"(2) by (simp add: dict_of_distinct)
    moreover have "encode (JObj kvs) @ r = CHR ''{'' # CHR 0x22 # ?body @ CHR ''}'' # r"
      using e by simp
    ultimately show ?thesis by (simp add: n del: encode.simps)
  qed
next
  case 7
  then show ?case by simp
next
  case (8 x)
  from "8.prems"(2) obtain m where n: "n = Suc m" by (cases n) auto
  have "parse_value m (encode x @ CHR '']'' # r) = Some (x, CHR '']'' # r)"
    using "8.prems" by (intro "8.IH") (simp_all add: n no_digit_ahead_simps)
  then show ?case by (simp add: n skip_ws_simps closers_not_ws)
next
  case (9 x y ys)
  from "9.prems"(2) obtain m where n: "n = Suc m" by (cases n) auto
  let ?rest = "encode_items (y # ys) @ CHR '']'' # r"
  have lx: "length (encode x) \<noteq> 0" using encode_not_Nil [of x] by simp
  have v: "parse_value m (encode x @ CHR '','' # CHR '' '' # ?rest)
      = Some (x, CHR '','' # CHR '' '' # ?rest)"
    using "9.prems" by (intro "9.IH"(1)) (simp_all add: n no_digit_ahead_simps)
  have i: "parse_items m ?rest = Some (y # ys, r)"
    using "9.prems" lx by (intro "9.IH"(2)) (simp_all add: n)
  have "y # ys \<noteq> []" by simp
  from encode_items_hd [OF this] obtain c t where e: "encode_items (y # ys) = c # t"
      and c: "c \<in> set (CHR 0x22 # ''ntf-0123456789[{'')"
    by blast
  have s: "skip_ws (CHR '' '' # ?rest) = ?rest"
    using start_facts(1) [OF c] by (simp add: skip_ws_simps e)
  have "encode_items (x # y # ys) @ CHR '']'' # r
      = encode x @ CHR '','' # CHR '' '' # ?rest"
    by simp
  then show ?case
    using v i s by (simp add: n skip_ws_simps closers_not_ws del: encode.simps)
next
  case 10
  then show ?case by simp
next
  case (11 k v)
  from "11.prems"(2) obtain m where n: "n = Suc m" by (cases n) auto
  let ?after = "encode v @ CHR ''}'' # r"
  have t: "tl (encode_pairs [(k, v)]) @ CHR ''}'' # r
      = concat (map escape k) @ CHR 0x22 # CHR '':'' # CHR '' '' # ?after"
    by (simp add: encode_str_def)
  have v: "parse_value m ?after = Some (v, CHR ''}'' # r)"
    using "11.prems" by (intro "11.IH") (simp_all add: n no_digit_ahead_simps)
  have s: "skip_ws (CHR '' '' # ?after) = ?after"
    using skip_ws_encode [of v "CHR ''}'' # r"] by (simp add: skip_ws_simps)
  show ?case
    unfolding t n
    using v s by (simp add: scanstring_encoded skip_ws_simps closers_not_ws
                       del: encode.simps)
next
  case (12 k v p ps)
  from "12.prems"(2) obtain m where n: "n = Suc m" by (cases n) auto
  let ?body = "tl (encode_pairs (p # ps))"
  let ?rest = "?body @ CHR ''}'' # r"
  let ?after = "encode v @ CHR '','' # CHR '' '' # CHR 0x22 # ?rest"
  have e: "encode_pairs (p # ps) = CHR 0x22 # ?body" by (rule encode_pairs_hd) simp
  have t: "tl (encode_pairs ((k, v) # p # ps)) @ CHR ''}'' # r
      = concat (map escape k) @ CHR 0x22 # CHR '':'' # CHR '' '' # ?after"
    using e by (simp add: encode_str_def)
  have lv: "length (encode v) \<noteq> 0" using encode_not_Nil [of v] by simp
  have v: "parse_value m ?after = Some (v, CHR '','' # CHR '' '' # CHR 0x22 # ?rest)"
    using "12.prems" by (intro "12.IH"(1)) (simp_all add: n no_digit_ahead_simps)
  have i: "parse_pairs m ?rest = Some (p # ps, r)"
    using "12.prems" lv by (intro "12.IH"(2)) (simp_all add: n)
  have s: "skip_ws (CHR '' '' # ?after) = ?after"
    using skip_ws_encode [of v "CHR '','' # CHR '' '' # CHR 0x22 # ?rest"]
    by (simp add: skip_ws_simps)
  show ?case
    unfolding t n
    using v i s by (simp add: scanstring_encoded skip_ws_simps closers_not_ws
                         del: encode.simps)
qed


lemma loads_encode:
  assumes "distinct_keys v" and "list_all int_fits (ints_of v)" and "list_all is_ws w"
  shows "loads (encode v @ w) = Some v"
proof -
  have n: "no_digit_ahead w"
    using assms(3) by (cases w) (auto simp: no_digit_ahead_def is_ws_def is_digit_def)
  have "parse_value (2 * length (encode v @ w) + 1) (encode v @ w) = Some (v, w)"
    using assms(1,2) n by (intro parse_encode(1)) simp_all
  moreover have "skip_ws (encode v @ w) = encode v @ w"
    by (rule skip_ws_encode)
  moreover have "skip_ws w = []"
    using assms(3) by (simp add: skip_ws_def list_all_iff)
  ultimately show ?thesis by (simp add: loads_def)
qed

lemma dumps_loads:
  assumes "distinct_keys v" and "list_all int_fits (ints_of v)"
  shows "\<exists>t. dumps v = Some t \<and> list_all (\<lambda>c. (of_char c :: nat) < 128) t
           \<and> loads t = Some v \<and> loads (t @ [CHR 0x0A]) = Some v"
proof -
  have "loads (encode v @ []) = Some v"
    using assms by (intro loads_encode) simp_all
  moreover have "loads (encode v @ [CHR 0x0A]) = Some v"
    using assms by (intro loads_encode) (simp_all add: is_ws_def)
  ultimately show ?thesis
    using assms(2) encode_ascii(1) [of v] by (simp add: dumps_def)
qed

text \<open>
  Claim C8, as stated, fails: with an empty dictionary of arguments the document written
  holds no \<^verbatim>\<open>arguments\<close> at all. Its text is \<^verbatim>\<open>{"execute": "query-status"}\<close>, and a
  peer that decodes this text finds the name and no arguments, not the empty dictionary
  that \<^verbatim>\<open>cmd\<close> was given.
\<close>

theorem cmd_empty_arguments_counterexample:
  "sent (snd (cmd ''query-status'' (JObj []) JNull
      \<lparr>events = [], inbox = [Line (Json [(''return'', JObj [])])], blocking = True,
       sendrc = [], sent = [], sockfile = True, refused = None\<rparr>))
     = [[(''execute'', JStr ''query-status'')]]
   \<and> dumps (JObj [(''execute'', JStr ''query-status'')])
     = Some (''{'' @ [CHR 0x22] @ ''execute'' @ [CHR 0x22] @ '': '' @ [CHR 0x22]
             @ ''query-status'' @ [CHR 0x22] @ ''}'')
   \<and> loads (''{'' @ [CHR 0x22] @ ''execute'' @ [CHR 0x22] @ '': '' @ [CHR 0x22]
             @ ''query-status'' @ [CHR 0x22] @ ''}'')
     = Some (JObj [(''execute'', JStr ''query-status'')])
   \<and> map_of [(''execute'', JStr ''query-status'')] ''arguments'' \<noteq> Some (JObj [])"
proof (intro conjI)
  show "sent (snd (cmd ''query-status'' (JObj []) JNull
      \<lparr>events = [], inbox = [Line (Json [(''return'', JObj [])])], blocking = True,
       sendrc = [], sent = [], sockfile = True, refused = None\<rparr>))
     = [[(''execute'', JStr ''query-status'')]]"
    by (simp add: cmd_def cmd_obj_sent qmp_cmd_def writable_def)
  show "dumps (JObj [(''execute'', JStr ''query-status'')])
     = Some (''{'' @ [CHR 0x22] @ ''execute'' @ [CHR 0x22] @ '': '' @ [CHR 0x22]
             @ ''query-status'' @ [CHR 0x22] @ ''}'')"
    by code_simp
  show "loads (''{'' @ [CHR 0x22] @ ''execute'' @ [CHR 0x22] @ '': '' @ [CHR 0x22]
             @ ''query-status'' @ [CHR 0x22] @ ''}'')
     = Some (JObj [(''execute'', JStr ''query-status'')])"
    by code_simp
  show "map_of [(''execute'', JStr ''query-status'')] ''arguments'' \<noteq> Some (JObj [])"
    by simp
qed

text \<open>
  Claim C8, amended. A document whose dictionaries hold each key once and whose integers
  are within the limit of digits has a text; the text is pure ASCII, and decoding it,
  with or without the newline that ends a line, gives the document back. On a session
  whose write succeeds \<^verbatim>\<open>cmd\<close> writes the document \<^verbatim>\<open>qmp_cmd\<close>; a peer that decodes
  its text finds the name under \<^verbatim>\<open>execute\<close>, and the arguments under \<^verbatim>\<open>arguments\<close>
  when they are true in Python's sense (a dictionary that is not empty), no
  \<^verbatim>\<open>arguments\<close> otherwise. An error response round-trips whatever characters its
  \<^verbatim>\<open>class\<close> and \<^verbatim>\<open>desc\<close> are made of: those outside ASCII travel as escapes.
\<close>

theorem cmd_round_trip:
  "(distinct_keys v \<longrightarrow> list_all int_fits (ints_of v) \<longrightarrow>
      (\<exists>t. dumps v = Some t \<and> list_all (\<lambda>c. (of_char c :: nat) < 128) t
         \<and> loads t = Some v \<and> loads (t @ [CHR 0x0A]) = Some v))
   \<and> (writable st \<longrightarrow>
        distinct_keys args \<longrightarrow> list_all int_fits (ints_of args) \<longrightarrow>
        distinct_keys ident \<longrightarrow> list_all int_fits (ints_of ident) \<longrightarrow>
      sent (snd (cmd name args ident st)) = sent st @ [qmp_cmd name args ident]
      \<and> (\<exists>t m. dumps (JObj (qmp_cmd name args ident)) = Some t
             \<and> list_all (\<lambda>c. (of_char c :: nat) < 128) t
             \<and> loads t = Some (JObj m)
             \<and> map_of m ''execute'' = Some (JStr name)
             \<and> map_of m ''arguments'' = (if truthy args then Some args else None)))
   \<and> (\<exists>t. dumps (JObj [(''error'', JObj [(''class'', JStr cls), (''desc'', JStr desc)])])
           = Some t
         \<and> list_all (\<lambda>c. (of_char c :: nat) < 128) t
         \<and> loads t = Some (JObj [(''error'', JObj [(''class'', JStr cls),
                                                   (''desc'', JStr desc)])])
         \<and> loads (t @ [CHR 0x0A])
           = Some (JObj [(''error'', JObj [(''class'', JStr cls), (''desc'', JStr desc)])]))"
proof (intro conjI impI)
  assume "distinct_keys v" "list_all int_fits (ints_of v)"
  then show "\<exists>t. dumps v = Some t \<and> list_all (\<lambda>c. (of_char c :: nat) < 128) t
         \<and> loads t = Some v \<and> loads (t @ [CHR 0x0A]) = Some v"
    by (rule dumps_loads)
next
  assume "writable st"
  then show "sent (snd (cmd name args ident st)) = sent st @ [qmp_cmd name args ident]"
    by (simp add: cmd_def cmd_obj_sent)
next
  assume a: "distinct_keys args" "list_all int_fits (ints_of args)"
    "distinct_keys ident" "list_all int_fits (ints_of ident)"
  let ?m = "qmp_cmd name args ident"
  have d: "distinct_keys (JObj ?m)" using a by (simp add: qmp_cmd_def)
  have f: "list_all int_fits (ints_of (JObj ?m))" using a by (simp add: qmp_cmd_def)
  from dumps_loads [OF d f] obtain t where t: "dumps (JObj ?m) = Some t"
      "list_all (\<lambda>c. (of_char c :: nat) < 128) t" "loads t = Some (JObj ?m)"
    by blast
  have k: "map_of ?m ''execute'' = Some (JStr name)"
    "map_of ?m ''arguments'' = (if truthy args then Some args else None)"
    by (simp_all add: qmp_cmd_def)
  from t k show "\<exists>t m. dumps (JObj ?m) = Some t
         \<and> list_all (\<lambda>c. (of_char c :: nat) < 128) t
         \<and> loads t = Some (JObj m)
         \<and> map_of m ''execute'' = Some (JStr name)
         \<and> map_of m ''arguments'' = (if truthy args then Some args else None)"
    by blast
next
  let ?r = "JObj [(''error'', JObj [(''class'', JStr cls), (''desc'', JStr desc)])]"
  have "distinct_keys ?r" "list_all int_fits (ints_of ?r)" by simp_all
  then show "\<exists>t. dumps ?r = Some t \<and> list_all (\<lambda>c. (of_char c :: nat) < 128) t
         \<and> loads t = Some ?r \<and> loads (t @ [CHR 0x0A]) = Some ?r"
    by (rule dumps_loads)
qed

theorem cmd_round_trip_witness:
  "writable \<lparr>events = [], inbox = [], blocking = True, sendrc = [], sent = [],
            sockfile = True, refused = None\<rparr>
   \<and> sent (snd (cmd ''device_add'' (JObj [(''driver'', JStr ''e1000'')]) JNull
        \<lparr>events = [], inbox = [], blocking = True, sendrc = [], sent = [],
         sockfile = True, refused = None\<rparr>))
     = [[(''execute'', JStr ''device_add''),
         (''arguments'', JObj [(''driver'', JStr ''e1000'')])]]
   \<and> dumps (JObj [(''execute'', JStr ''device_add''),
                  (''arguments'', JObj [(''driver'', JStr ''e1000'')])])
     = Some (''{'' @ [CHR 0x22] @ ''execute'' @ [CHR 0x22] @ '': '' @ [CHR 0x22]
             @ ''device_add'' @ [CHR 0x22] @ '', '' @ [CHR 0x22] @ ''arguments''
             @ [CHR 0x22] @ '': {'' @ [CHR 0x22] @ ''driver'' @ [CHR 0x22] @ '': ''
             @ [CHR 0x22] @ ''e1000'' @ [CHR 0x22] @ ''}}'')
   \<and> loads (''{'' @ [CHR 0x22] @ ''execute'' @ [CHR 0x22] @ '': '' @ [CHR 0x22]
             @ ''device_add'' @ [CHR 0x22] @ '', '' @ [CHR 0x22] @ ''arguments''
             @ [CHR 0x22] @ '': {'' @ [CHR 0x22] @ ''driver'' @ [CHR 0x22] @ '': ''
             @ [CHR 0x22] @ ''e1000'' @ [CHR 0x22] @ ''}}'')
     = Some (JObj [(''execute'', JStr ''device_add''),
                   (''arguments'', JObj [(''driver'', JStr ''e1000'')])])
   \<and> dumps (JObj [(''error'', JObj [(''class'', JStr ''GenericError''),
                                    (''desc'', JStr [CHR 0xE9, CHR ''t'', CHR 0xE9])])])
     = Some (''{'' @ [CHR 0x22] @ ''error'' @ [CHR 0x22] @ '': {'' @ [CHR 0x22] @ ''class''
             @ [CHR 0x22] @ '': '' @ [CHR 0x22] @ ''GenericError'' @ [CHR 0x22] @ '', ''
             @ [CHR 0x22] @ ''desc'' @ [CHR 0x22] @ '': '' @ [CHR 0x22, CHR 0x5C] @ ''u00e9t''
             @ [CHR 0x5C] @ ''u00e9'' @ [CHR 0x22] @ ''}}'')
   \<and> loads (''{'' @ [CHR 0x22] @ ''error'' @ [CHR 0x22] @ '': {'' @ [CHR 0x22] @ ''class''
             @ [CHR 0x22] @ '': '' @ [CHR 0x22] @ ''GenericError'' @ [CHR 0x22] @ '', ''
             @ [CHR 0x22] @ ''desc'' @ [CHR 0x22] @ '': '' @ [CHR 0x22, CHR 0x5C] @ ''u00e9t''
             @ [CHR 0x5C] @ ''u00e9'' @ [CHR 0x22] @ ''}}'')
     = Some (JObj [(''error'', JObj [(''class'', JStr ''GenericError''),
                                    (''desc'', JStr [CHR 0xE9, CHR ''t'', CHR 0xE9])])])
   \<and> loads ((''{'' @ [CHR 0x22] @ ''error'' @ [CHR 0x22] @ '': {'' @ [CHR 0x22] @ ''class''
             @ [CHR 0x22] @ '': '' @ [CHR 0x22] @ ''GenericError'' @ [CHR 0x22] @ '', ''
             @ [CHR 0x22] @ ''desc'' @ [CHR 0x22] @ '': '' @ [CHR 0x22, CHR 0x5C] @ ''u00e9t''
             @ [CHR 0x5C] @ ''u00e9'' @ [CHR 0x22] @ ''}}'') @ [CHR 0x0A])
     = Some (JObj [(''error'', JObj [(''class'', JStr ''GenericError''),
                                    (''desc'', JStr [CHR 0xE9, CHR ''t'', CHR 0xE9])])])"
proof -
  let ?st = "\<lparr>events = [], inbox = [], blocking = True, sendrc = [], sent = [],
            sockfile = True, refused = None\<rparr>"
  let ?args = "JObj [(''driver'', JStr ''e1000'')]"
  let ?m = "[(''execute'', JStr ''device_add''), (''arguments'', ?args)]"
  let ?tm = "''{'' @ [CHR 0x22] @ ''execute'' @ [CHR 0x22] @ '': '' @ [CHR 0x22]
             @ ''device_add'' @ [CHR 0x22] @ '', '' @ [CHR 0x22] @ ''arguments''
             @ [CHR 0x22] @ '': {'' @ [CHR 0x22] @ ''driver'' @ [CHR 0x22] @ '': ''
             @ [CHR 0x22] @ ''e1000'' @ [CHR 0x22] @ ''}}''"
  let ?r = "JObj [(''error'', JObj [(''class'', JStr ''GenericError''),
                                    (''desc'', JStr [CHR 0xE9, CHR ''t'', CHR 0xE9])])]"
  let ?tr = "''{'' @ [CHR 0x22] @ ''error'' @ [CHR 0x22] @ '': {'' @ [CHR 0x22] @ ''class''
             @ [CHR 0x22] @ '': '' @ [CHR 0x22] @ ''GenericError'' @ [CHR 0x22] @ '', ''
             @ [CHR 0x22] @ ''desc'' @ [CHR 0x22] @ '': '' @ [CHR 0x22, CHR 0x5C] @ ''u00e9t''
             @ [CHR 0x5C] @ ''u00e9'' @ [CHR 0x22] @ ''}}''"
  note t = cmd_round_trip [where v = ?r and st = ?st and args = ?args and ident = JNull
      and name = "''device_add''" and cls = "''GenericError''"
      and desc = "[CHR 0xE9, CHR ''t'', CHR 0xE9]"]
  have w: "writable ?st" by (simp add: writable_def)
  have q: "qmp_cmd ''device_add'' ?args JNull = ?m" by (simp add: qmp_cmd_def)
  have h: "distinct_keys ?args" "list_all int_fits (ints_of ?args)"
    "distinct_keys JNull" "list_all int_fits (ints_of JNull)" by simp_all
  note c = t [THEN conjunct2, THEN conjunct1, rule_format, OF w h]
  have s: "sent (snd (cmd ''device_add'' ?args JNull ?st)) = [?m]"
    using c [THEN conjunct1] q by simp
  have dm: "dumps (JObj ?m) = Some ?tm" by code_simp
  from c [THEN conjunct2] obtain u m where u: "dumps (JObj ?m) = Some u"
      "loads u = Some (JObj m)" "map_of m ''execute'' = Some (JStr ''device_add'')"
      "map_of m ''arguments'' = Some ?args"
    unfolding q by auto
  from u(1,2) dm have "loads ?tm = Some (JObj m)" by simp
  moreover have "loads ?tm = Some (JObj ?m)" by code_simp
  ultimately have "m = ?m" by simp
  with u dm have lm: "loads ?tm = Some (JObj ?m)" by simp
  have dr: "dumps ?r = Some ?tr" by code_simp
  from t [THEN conjunct2, THEN conjunct2] obtain y where y: "dumps ?r = Some y"
      "loads (y @ [CHR 0x0A]) = Some ?r"
    by blast
  from y dr have lr: "loads (?tr @ [CHR 0x0A]) = Some ?r" by simp
  have hr: "distinct_keys ?r" "list_all int_fits (ints_of ?r)" by simp_all
  from t [THEN conjunct1, rule_format, OF hr] obtain x where x: "dumps ?r = Some x"
      "loads x = Some ?r"
    by blast
  from x dr have lx: "loads ?tr = Some ?r" by simp
  show ?thesis by (intro conjI w s dm lm dr lx lr)
qed

subsection \<open>The address of a monitor\<close>

lemma py_split_unfold:
  "py_split c s =
     takeWhile (\<lambda>x. x \<noteq> c) s #
       (case dropWhile (\<lambda>x. x \<noteq> c) s of [] \<Rightarrow> [] | _ # r \<Rightarrow> py_split c r)"
  by (induction s) (auto split: list.splits)

lemma length_py_split: "length (py_split c s) = Suc (count_list s c)"
  by (induction s) (auto split: list.splits)

lemma py_split_no_sep: "count_list s c = 0 \<Longrightarrow> py_split c s = [s]"
  by (induction s) (auto split: list.splits if_splits)

lemma count_list_dropWhile:
  "count_list (dropWhile (\<lambda>x. x \<noteq> c) s) c = count_list s c"
  by (induction s) auto

lemma py_split_one_sep:
  assumes "count_list s c = 1"
  shows "py_split c s = [takeWhile (\<lambda>x. x \<noteq> c) s, tl (dropWhile (\<lambda>x. x \<noteq> c) s)]"
proof (cases "dropWhile (\<lambda>x. x \<noteq> c) s")
  case Nil
  then have "c \<notin> set s" by auto
  then have "count_list s c = 0" by (simp add: count_list_0_iff)
  with assms show ?thesis by simp
next
  case (Cons y r)
  then have y: "y = c"
    using hd_dropWhile [of "\<lambda>x. x \<noteq> c" s] by force
  have "count_list (y # r) c = 1"
    using count_list_dropWhile [of c s] assms Cons by simp
  with y have "count_list r c = 0" by simp
  then have "py_split c r = [r]" by (rule py_split_no_sep)
  with Cons show ?thesis
    by (subst py_split_unfold) simp
qed

text \<open>
  Claim C9. \<^verbatim>\<open>__get_address\<close> returns a pair of host and port exactly when the string
  holds one \<open>:\<close> and \<^verbatim>\<open>int\<close> accepts what follows it, the host being what precedes
  it; with one \<open>:\<close> and a port that \<^verbatim>\<open>int\<close> rejects it raises \<^verbatim>\<open>ValueError\<close> (the
  spec's InvalidAddress); every other string, with no \<open>:\<close> or with several, is returned
  as it is, a socket path. So \<^verbatim>\<open>localhost:4444\<close> gives host \<^verbatim>\<open>localhost\<close> and port 4444,
  \<^verbatim>\<open>/tmp/qmp.sock\<close> a path, and \<^verbatim>\<open>localhost:notaport\<close> fails.
\<close>

theorem get_address_resolves:
  "get_address int_of arg =
     (if count_list arg CHR '':'' = 1 then
        (case int_of (tl (dropWhile (\<lambda>c. c \<noteq> CHR '':'') arg)) of
           Some port \<Rightarrow> Returns (HostPort (takeWhile (\<lambda>c. c \<noteq> CHR '':'') arg) port)
         | None \<Rightarrow> Raises ValueError)
      else Returns (SocketPath arg))
   \<and> (int_of ''4444'' = Some 4444 \<longrightarrow>
        get_address int_of ''localhost:4444'' = Returns (HostPort ''localhost'' 4444))
   \<and> get_address int_of ''/tmp/qmp.sock'' = Returns (SocketPath ''/tmp/qmp.sock'')
   \<and> (int_of ''notaport'' = None \<longrightarrow>
        get_address int_of ''localhost:notaport'' = Raises ValueError)"
proof -
  have general: "get_address int_of arg =
     (if count_list arg CHR '':'' = 1 then
        (case int_of (tl (dropWhile (\<lambda>c. c \<noteq> CHR '':'') arg)) of
           Some port \<Rightarrow> Returns (HostPort (takeWhile (\<lambda>c. c \<noteq> CHR '':'') arg) port)
         | None \<Rightarrow> Raises ValueError)
      else Returns (SocketPath arg))" for arg
  proof (cases "count_list arg CHR '':'' = 1")
    case True
    then show ?thesis
      by (simp add: get_address_def py_split_one_sep split: option.splits)
  next
    case False
    then have "length (py_split CHR '':'' arg) \<noteq> 2"
      by (simp add: length_py_split)
    then have "get_address int_of arg = Returns (SocketPath arg)"
      by (auto simp: get_address_def split: list.splits)
    with False show ?thesis by simp
  qed
  show ?thesis
    by (intro conjI impI, rule general) (simp_all add: general)
qed

text \<open>The theorem at the decimal numerals, and a string with several separators.\<close>

theorem get_address_resolves_witness:
  "decimal ''4444'' = Some 4444
   \<and> get_address decimal ''localhost:4444'' = Returns (HostPort ''localhost'' 4444)
   \<and> decimal ''notaport'' = None
   \<and> get_address decimal ''localhost:notaport'' = Raises ValueError
   \<and> get_address decimal ''[::1]:4444'' = Returns (SocketPath ''[::1]:4444'')"
proof -
  have a: "decimal ''4444'' = Some 4444"
    by (simp add: decimal_def is_digit_def digit_val_def)
  have b: "decimal ''notaport'' = None"
    by (simp add: decimal_def is_digit_def)
  show ?thesis
    using a b get_address_resolves [of decimal "''[::1]:4444''"] by simp
qed

end
